theory Spec2Isabelle
  imports Main "HOL-Library.Char_ord" "HOL-Library.List_Lexorder" "HOL-Library.Multiset"
begin

section \<open>The membership and team store\<close>

text \<open>
  The relational store behind \<^verbatim>\<open>prisma\<close> is a pair of tables. A table is a list of rows;
  \<^verbatim>\<open>findFirst\<close> returns the first row of the table that satisfies the \<^verbatim>\<open>where\<close> clause
  and \<^verbatim>\<open>findMany\<close> all of them, in table order (no query of this slice has an
  \<^verbatim>\<open>orderBy\<close>). Every call is recorded in a log, so that a statement about the round
  trips a function makes can be read off its result.
\<close>

datatype MembershipRole = MEMBER | ADMIN | OWNER

record team =
  team_id :: int
  team_isOrganization :: bool
  team_parentId :: "int option"

record membership =
  userId :: int
  teamId :: int
  role :: MembershipRole
  accepted :: bool

record db =
  memberships :: "membership list"
  teams :: "team list"

datatype prismaCall = membership_findFirst | membership_findMany | team_findFirst

text \<open>The relation filter \<^verbatim>\<open>team: { isOrganization: true }\<close> of a membership row.\<close>

definition team_of :: "db \<Rightarrow> membership \<Rightarrow> team option" where
  "team_of d m = find (\<lambda>t. team_id t = teamId m) (teams d)"

definition team_is_organization :: "db \<Rightarrow> membership \<Rightarrow> bool" where
  "team_is_organization d m =
     (case team_of d m of None \<Rightarrow> False | Some t \<Rightarrow> team_isOrganization t)"

definition findFirst_membership ::
  "db \<Rightarrow> (membership \<Rightarrow> bool) \<Rightarrow> prismaCall list \<Rightarrow> membership option \<times> prismaCall list" where
  "findFirst_membership d wh log = (find wh (memberships d), log @ [membership_findFirst])"

definition findMany_membership ::
  "db \<Rightarrow> (membership \<Rightarrow> bool) \<Rightarrow> prismaCall list \<Rightarrow> membership list \<times> prismaCall list" where
  "findMany_membership d wh log = (filter wh (memberships d), log @ [membership_findMany])"

definition findFirst_team ::
  "db \<Rightarrow> (team \<Rightarrow> bool) \<Rightarrow> prismaCall list \<Rightarrow> team option \<times> prismaCall list" where
  "findFirst_team d wh log = (find wh (teams d), log @ [team_findFirst])"

section \<open>retrieveScopedAccessibleUsers.ts, first variant\<close>

text \<open>
  The \<^verbatim>\<open>where\<close> clause of the admin lookup of the first variant:
  \<^verbatim>\<open>userId: adminUserId, role: { in: [OWNER, ADMIN] }, team: { isOrganization: true }\<close>.
\<close>

definition adminOrgWhere :: "db \<Rightarrow> int \<Rightarrow> membership \<Rightarrow> bool" where
  "adminOrgWhere d adminUserId m =
     (userId m = adminUserId \<and> (role m = OWNER \<or> role m = ADMIN) \<and> team_is_organization d m)"

definition getAccessibleUsers :: "db \<Rightarrow> int list \<Rightarrow> int \<Rightarrow> int list \<times> prismaCall list" where
  "getAccessibleUsers d memberUserIds adminUserId =
     (let (adminOrgMembership, log1) = findFirst_membership d (adminOrgWhere d adminUserId) []
      in case adminOrgMembership of
           None \<Rightarrow> ([], log1)
         | Some aom \<Rightarrow>
             let orgId = teamId aom
             in if length memberUserIds = 0 then ([], log1)
                else
                  let (ms, log2) =
                        findMany_membership d
                          (\<lambda>m. teamId m = orgId \<and> userId m \<in> set memberUserIds \<and> accepted m)
                          log1
                  in (map userId ms, log2))"

definition retrieveOrgScopedAccessibleUsers :: "db \<Rightarrow> int \<Rightarrow> int list \<times> prismaCall list" where
  "retrieveOrgScopedAccessibleUsers d adminId =
     (let (adminOrgMembership, log1) = findFirst_membership d (adminOrgWhere d adminId) []
      in case adminOrgMembership of
           None \<Rightarrow> ([], log1)
         | Some aom \<Rightarrow>
             let organizationId = teamId aom;
                 (allMemberships, log2) =
                   findMany_membership d (\<lambda>m. teamId m = organizationId \<and> accepted m) log1
             in (map userId allMemberships, log2))"

section \<open>retrieveScopedAccessibleUsers.ts, second variant\<close>

text \<open>
  The second copy of the file adds \<^verbatim>\<open>accepted: true\<close> to the \<^verbatim>\<open>where\<close> clause of the
  admin lookup; the rest of both functions is the same text.
\<close>

definition adminOrgWhere_v2 :: "db \<Rightarrow> int \<Rightarrow> membership \<Rightarrow> bool" where
  "adminOrgWhere_v2 d adminUserId m =
     (userId m = adminUserId \<and> accepted m \<and> (role m = OWNER \<or> role m = ADMIN)
      \<and> team_is_organization d m)"

definition getAccessibleUsers_v2 :: "db \<Rightarrow> int list \<Rightarrow> int \<Rightarrow> int list \<times> prismaCall list" where
  "getAccessibleUsers_v2 d memberUserIds adminUserId =
     (let (adminOrgMembership, log1) = findFirst_membership d (adminOrgWhere_v2 d adminUserId) []
      in case adminOrgMembership of
           None \<Rightarrow> ([], log1)
         | Some aom \<Rightarrow>
             let orgId = teamId aom
             in if length memberUserIds = 0 then ([], log1)
                else
                  let (ms, log2) =
                        findMany_membership d
                          (\<lambda>m. teamId m = orgId \<and> userId m \<in> set memberUserIds \<and> accepted m)
                          log1
                  in (map userId ms, log2))"

definition retrieveOrgScopedAccessibleUsers_v2 :: "db \<Rightarrow> int \<Rightarrow> int list \<times> prismaCall list" where
  "retrieveOrgScopedAccessibleUsers_v2 d adminId =
     (let (adminOrgMembership, log1) = findFirst_membership d (adminOrgWhere_v2 d adminId) []
      in case adminOrgMembership of
           None \<Rightarrow> ([], log1)
         | Some aom \<Rightarrow>
             let organizationId = teamId aom;
                 (allMemberships, log2) =
                   findMany_membership d (\<lambda>m. teamId m = organizationId \<and> accepted m) log1
             in (map userId allMemberships, log2))"

section \<open>The team-group-mapping guard\<close>

text \<open>
  \<^verbatim>\<open>HttpError\<close> is the thrown value; a call either throws it (\<open>Inl\<close>) or returns the object
  \<^verbatim>\<open>{ organizationId }\<close> (\<open>Inr\<close>). \<^verbatim>\<open>canAccessOrganization\<close> lives outside this slice and
  is a parameter: it maps the user and the organization id to \<^verbatim>\<open>{ message, access }\<close>.
  \<^verbatim>\<open>organizationId: number | null\<close> and the optional \<^verbatim>\<open>teamId?: number\<close> are
  \<open>int option\<close>; the tests \<^verbatim>\<open>!organizationId\<close> and \<^verbatim>\<open>if (teamId)\<close> are JavaScript
  truthiness, under which \<open>0\<close> counts as absent.
\<close>

record httpError =
  statusCode :: nat
  message :: string

record mappingScope =
  organizationId :: int

definition truthy :: "int option \<Rightarrow> bool" where
  "truthy v = (case v of None \<Rightarrow> False | Some n \<Rightarrow> n \<noteq> 0)"

definition userCanCreateTeamGroupMapping ::
  "('u \<Rightarrow> int \<Rightarrow> string \<times> bool) \<Rightarrow> db \<Rightarrow> 'u \<Rightarrow> int option \<Rightarrow> int option
     \<Rightarrow> (httpError + mappingScope) \<times> prismaCall list" where
  "userCanCreateTeamGroupMapping canAccessOrganization d user orgId teamIdArg =
     (case (truthy orgId, orgId) of
        (True, Some oid) \<Rightarrow>
          let (msg, access) = canAccessOrganization user oid
          in if \<not> access then (Inl \<lparr>statusCode = 400, message = msg\<rparr>, [])
             else
               (case (truthy teamIdArg, teamIdArg) of
                  (True, Some tid) \<Rightarrow>
                    let (orgTeam, log1) =
                          findFirst_team d
                            (\<lambda>t. team_id t = tid \<and> team_parentId t = Some oid) []
                    in (case orgTeam of
                          None \<Rightarrow>
                            (Inl \<lparr>statusCode = 400, message = ''Could not find team''\<rparr>, log1)
                        | Some t \<Rightarrow> (Inr \<lparr>organizationId = oid\<rparr>, log1))
                | _ \<Rightarrow> (Inr \<lparr>organizationId = oid\<rparr>, []))
      | _ \<Rightarrow> (Inl \<lparr>statusCode = 400, message = ''Could not find organization id''\<rparr>, []))"

section \<open>The date library\<close>

text \<open>
  \<^verbatim>\<open>dayjs\<close> is a library outside this slice. A \<^verbatim>\<open>dayjs\<close> object that has been moved into
  a time zone is modelled by the instant it denotes (\<open>valueOf\<close>, milliseconds since the
  epoch, which is what \<^verbatim>\<open>isAfter\<close> and \<^verbatim>\<open>isBefore\<close> compare) together with the calendar
  fields that \<^verbatim>\<open>format\<close> prints in that zone (\<open>monthOfYear\<close> is 1 to 12). The zone
  conversion itself, the clock, \<^verbatim>\<open>startOf("month")\<close>, \<^verbatim>\<open>endOf("month")\<close>, the
  translation function \<^verbatim>\<open>t\<close> and the \<^verbatim>\<open>"MMMM YYYY"\<close> label of a month key are
  parameters of the model, collected in \<open>env\<close>. So are the two tables of the JavaScript
  engine that a lookup in a plain object can reach: for a property name, the \<^verbatim>\<open>length\<close>
  (number of parameters) of the function that \<^verbatim>\<open>Object.prototype\<close>, respectively
  \<^verbatim>\<open>Array.prototype\<close>, holds under that name, and \<open>None\<close> when it holds none. The
  accessor \<^verbatim>\<open>__proto__\<close> of \<^verbatim>\<open>Object.prototype\<close> is not in the table; the model treats
  it by name.
\<close>

record dayjs =
  valueOf :: int
  year :: nat
  monthOfYear :: nat
  dayOfMonth :: nat

definition isAfter :: "dayjs \<Rightarrow> dayjs \<Rightarrow> bool" where
  "isAfter a b = (valueOf b < valueOf a)"

definition isBefore :: "dayjs \<Rightarrow> dayjs \<Rightarrow> bool" where
  "isBefore a b = (valueOf a < valueOf b)"

text \<open>
  \<^verbatim>\<open>format("YYYY-MM-DD")\<close> and \<^verbatim>\<open>format("YYYY-MM")\<close>: the year padded with zeros to four
  characters, month and day to two.
\<close>

definition digit_char :: "nat \<Rightarrow> char" where
  "digit_char n = ''0123456789'' ! (n mod 10)"

fun show_nat :: "nat \<Rightarrow> string" where
  "show_nat n = (if n < 10 then [digit_char n] else show_nat (n div 10) @ [digit_char n])"

declare show_nat.simps [simp del]

definition padStart :: "nat \<Rightarrow> string \<Rightarrow> string" where
  "padStart w s = replicate (w - length s) CHR ''0'' @ s"

definition format_YYYY_MM :: "dayjs \<Rightarrow> string" where
  "format_YYYY_MM d =
     padStart 4 (show_nat (year d)) @ ''-'' @ padStart 2 (show_nat (monthOfYear d))"

definition format_YYYY_MM_DD :: "dayjs \<Rightarrow> string" where
  "format_YYYY_MM_DD d = format_YYYY_MM d @ ''-'' @ padStart 2 (show_nat (dayOfMonth d))"

record env =
  tz :: "int \<Rightarrow> dayjs"
  nowMs :: int
  startOfMonth :: "dayjs \<Rightarrow> dayjs"
  endOfMonth :: "dayjs \<Rightarrow> dayjs"
  translate :: "string \<Rightarrow> string"
  monthLabel :: "string \<Rightarrow> string"
  objectPrototype :: "string \<Rightarrow> nat option"
  arrayPrototype :: "string \<Rightarrow> nat option"

subsection \<open>One instance: UTC\<close>

text \<open>
  For evaluating the model on concrete bookings: the proleptic Gregorian calendar in UTC
  (days since 1970-01-01 to year, month, day and back), English labels, and the function
  members of \<^verbatim>\<open>Object.prototype\<close> and \<^verbatim>\<open>Array.prototype\<close> of ECMAScript 2023 with their
  \<^verbatim>\<open>length\<close>.
\<close>

definition civil_from_days :: "int \<Rightarrow> int \<times> int \<times> int" where
  "civil_from_days z0 =
     (let z = z0 + 719468;
          era = z div 146097;
          doe = z - era * 146097;
          yoe = (doe - doe div 1460 + doe div 36524 - doe div 146096) div 365;
          doy = doe - (365 * yoe + yoe div 4 - yoe div 100);
          mp = (5 * doy + 2) div 153;
          d = doy - (153 * mp + 2) div 5 + 1;
          m = (if mp < 10 then mp + 3 else mp - 9);
          y = yoe + era * 400 + (if m \<le> 2 then 1 else 0)
      in (y, m, d))"

definition days_from_civil :: "int \<Rightarrow> int \<Rightarrow> int \<Rightarrow> int" where
  "days_from_civil y0 m d =
     (let y = (if m \<le> 2 then y0 - 1 else y0);
          era = y div 400;
          yoe = y - era * 400;
          doy = (153 * (if m > 2 then m - 3 else m + 9) + 2) div 5 + d - 1;
          doe = yoe * 365 + yoe div 4 - yoe div 100 + doy
      in era * 146097 + doe - 719468)"

definition utc_tz :: "int \<Rightarrow> dayjs" where
  "utc_tz ms =
     (case civil_from_days (ms div 86400000) of
        (y, m, d) \<Rightarrow> \<lparr>valueOf = ms, year = nat y, monthOfYear = nat m, dayOfMonth = nat d\<rparr>)"

definition utc_startOfMonth :: "dayjs \<Rightarrow> dayjs" where
  "utc_startOfMonth a =
     utc_tz (days_from_civil (int (year a)) (int (monthOfYear a)) 1 * 86400000)"

definition utc_endOfMonth :: "dayjs \<Rightarrow> dayjs" where
  "utc_endOfMonth a =
     (let (y, m) = (if monthOfYear a = 12 then (int (year a) + 1, 1)
                    else (int (year a), int (monthOfYear a) + 1))
      in utc_tz (days_from_civil y m 1 * 86400000 - 1))"

definition en_translate :: "string \<Rightarrow> string" where
  "en_translate k =
     (if k = ''today'' then ''Today'' else if k = ''this_month'' then ''This Month'' else k)"

definition en_monthName :: "string \<Rightarrow> string" where
  "en_monthName mm =
     (case map_of
        [(''01'', ''January''), (''02'', ''February''), (''03'', ''March''), (''04'', ''April''),
         (''05'', ''May''), (''06'', ''June''), (''07'', ''July''), (''08'', ''August''),
         (''09'', ''September''), (''10'', ''October''), (''11'', ''November''),
         (''12'', ''December'')] mm of
        None \<Rightarrow> mm | Some n \<Rightarrow> n)"

definition en_monthLabel :: "string \<Rightarrow> string" where
  "en_monthLabel k = en_monthName (drop 5 k) @ '' '' @ take 4 k"

definition es_objectPrototype :: "string \<Rightarrow> nat option" where
  "es_objectPrototype =
     map_of
       [(''constructor'', 1), (''hasOwnProperty'', 1), (''isPrototypeOf'', 1),
        (''propertyIsEnumerable'', 1), (''toLocaleString'', 0), (''toString'', 0),
        (''valueOf'', 0), (''__defineGetter__'', 2), (''__defineSetter__'', 2),
        (''__lookupGetter__'', 1), (''__lookupSetter__'', 1)]"

definition es_arrayPrototype :: "string \<Rightarrow> nat option" where
  "es_arrayPrototype =
     map_of
       [(''constructor'', 1), (''at'', 1), (''concat'', 1), (''copyWithin'', 2), (''entries'', 0),
        (''every'', 1), (''fill'', 1), (''filter'', 1), (''find'', 1), (''findIndex'', 1),
        (''findLast'', 1), (''findLastIndex'', 1), (''flat'', 0), (''flatMap'', 1),
        (''forEach'', 1), (''includes'', 1), (''indexOf'', 1), (''join'', 1), (''keys'', 0),
        (''lastIndexOf'', 1), (''map'', 1), (''pop'', 0), (''push'', 1), (''reduce'', 1),
        (''reduceRight'', 1), (''reverse'', 0), (''shift'', 0), (''slice'', 2), (''some'', 1),
        (''sort'', 1), (''splice'', 2), (''toLocaleString'', 0), (''toReversed'', 0),
        (''toSorted'', 1), (''toSpliced'', 2), (''toString'', 0), (''unshift'', 1),
        (''values'', 0), (''with'', 2)]"

definition utc_env :: "int \<Rightarrow> env" where
  "utc_env ms =
     \<lparr>tz = utc_tz, nowMs = ms, startOfMonth = utc_startOfMonth, endOfMonth = utc_endOfMonth,
      translate = en_translate, monthLabel = en_monthLabel,
      objectPrototype = es_objectPrototype, arrayPrototype = es_arrayPrototype\<rparr>"

section \<open>The booking list: grouping and row building\<close>

text \<open>
  Of a booking the grouping reads \<^verbatim>\<open>recurringEventId\<close> (\<^verbatim>\<open>string | null\<close>) and
  \<^verbatim>\<open>startTime\<close> (an instant, here in milliseconds since the epoch); \<open>uid\<close> tells bookings
  apart. A row is the tagged union \<^verbatim>\<open>RowData\<close>.
\<close>

datatype status = upcoming | recurring | past | cancelled | unconfirmed

record booking =
  uid :: string
  recurringEventId :: "string option"
  startTime :: int

record recurringInfo =
  info_recurringEventId :: "string option"
  info_count :: nat

record queryData =
  bookings :: "booking list"
  recurringInfos :: "recurringInfo list"

datatype rowData =
  Data (row_booking: booking) (row_isToday: bool) (row_recurringInfo: "recurringInfo option")
| Separator (row_label: string)

record groupedBookingsT =
  today :: "rowData list"
  currentMonth :: "rowData list"
  monthBuckets :: "(string \<times> rowData list) list"

text \<open>
  \<^verbatim>\<open>!booking.recurringEventId\<close> is truthiness: \<^verbatim>\<open>null\<close> and the empty string are both
  ``no recurring id''.
\<close>

definition recurring_key :: "booking \<Rightarrow> string option" where
  "recurring_key b =
     (case recurringEventId b of None \<Rightarrow> None | Some r \<Rightarrow> if r = [] then None else Some r)"

text \<open>
  \<^verbatim>\<open>filterBookings\<close> closes over the dictionary \<^verbatim>\<open>shownBookings\<close> and updates it; here
  the dictionary goes in and comes out. It is a plain object, created by \<^verbatim>\<open>{}\<close>, so a
  lookup \<^verbatim>\<open>shownBookings[id]\<close> that finds no own property goes on to the prototype, which
  is \<^verbatim>\<open>Object.prototype\<close> at first. The state of the dictionary is its own properties
  (always arrays of bookings) and, once \<^verbatim>\<open>shownBookings["__proto__"] = [booking]\<close> has
  run the setter of \<^verbatim>\<open>__proto__\<close>, the array that has become its prototype.
\<close>

datatype jsError = TypeError

record shownState =
  own :: "string \<rightharpoonup> booking list"
  protoArray :: "booking list option"

text \<open>
  What a lookup yields: \<^verbatim>\<open>undefined\<close>, an own array, the array that is the prototype
  (through the getter of \<^verbatim>\<open>__proto__\<close>), an inherited function with its \<^verbatim>\<open>length\<close>, or
  another value, whose \<^verbatim>\<open>length\<close> is \<^verbatim>\<open>undefined\<close>: \<^verbatim>\<open>Object.prototype\<close> itself, and,
  under an array prototype, an element of that array (a booking, an object with no
  \<^verbatim>\<open>length\<close> property) or its \<^verbatim>\<open>length\<close> (a number). The names that an array holds are
  the decimal numerals below its length and \<^verbatim>\<open>length\<close>.
\<close>

datatype jsValue =
  JsUndefined | OwnArray "booking list" | ProtoArray "booking list" | JsFunction nat | JsOther

definition inherited :: "nat option \<Rightarrow> jsValue" where
  "inherited m = (case m of None \<Rightarrow> JsUndefined | Some n \<Rightarrow> JsFunction n)"

definition lookupShown :: "env \<Rightarrow> shownState \<Rightarrow> string \<Rightarrow> jsValue" where
  "lookupShown e s k =
     (case own s k of
        Some l \<Rightarrow> OwnArray l
      | None \<Rightarrow>
          if k = ''__proto__''
          then (case protoArray s of None \<Rightarrow> JsOther | Some a \<Rightarrow> ProtoArray a)
          else
            (case protoArray s of
               None \<Rightarrow> inherited (objectPrototype e k)
             | Some a \<Rightarrow>
                 if k \<in> set (map show_nat [0..<length a]) \<or> k = ''length'' then JsOther
                 else (case arrayPrototype e k of
                         Some n \<Rightarrow> JsFunction n
                       | None \<Rightarrow> inherited (objectPrototype e k))))"

text \<open>\<^verbatim>\<open>v !== undefined && v.length > 0\<close>.\<close>

definition lengthPositive :: "jsValue \<Rightarrow> bool" where
  "lengthPositive v =
     (case v of
        JsUndefined \<Rightarrow> False
      | OwnArray l \<Rightarrow> length l > 0
      | ProtoArray a \<Rightarrow> length a > 0
      | JsFunction n \<Rightarrow> n > 0
      | JsOther \<Rightarrow> False)"

text \<open>
  \<^verbatim>\<open>shownBookings[id] = [booking]\<close>: the setter of \<^verbatim>\<open>__proto__\<close> replaces the prototype,
  any other name becomes (or stays) an own property.
\<close>

definition assignShown :: "shownState \<Rightarrow> string \<Rightarrow> booking list \<Rightarrow> shownState" where
  "assignShown s k l =
     (if k = ''__proto__'' then s\<lparr>protoArray := Some l\<rparr> else s\<lparr>own := (own s)(k \<mapsto> l)\<rparr>)"

text \<open>
  \<^verbatim>\<open>shownBookings[id].push(booking)\<close> appends to the array found; found a function, it
  throws a \<^verbatim>\<open>TypeError\<close>, since a function has no \<^verbatim>\<open>push\<close>. \<open>filter_stateful\<close> is
  \<^verbatim>\<open>Array.prototype.filter\<close> for such a callback: elements are visited left to right,
  and an exception of the callback ends the filter.
\<close>

definition filterBookings ::
  "env \<Rightarrow> status \<Rightarrow> shownState \<Rightarrow> booking \<Rightarrow> jsError + bool \<times> shownState" where
  "filterBookings e st shownBookings b =
     (if st = recurring \<or> st = unconfirmed \<or> st = cancelled then
        (case recurring_key b of
           None \<Rightarrow> Inr (True, shownBookings)
         | Some r \<Rightarrow>
             if lengthPositive (lookupShown e shownBookings r) then
               (case lookupShown e shownBookings r of
                  OwnArray l \<Rightarrow> Inr (False, shownBookings\<lparr>own := (own shownBookings)(r \<mapsto> l @ [b])\<rparr>)
                | ProtoArray a \<Rightarrow> Inr (False, shownBookings\<lparr>protoArray := Some (a @ [b])\<rparr>)
                | _ \<Rightarrow> Inl TypeError)
             else Inr (True, assignShown shownBookings r [b]))
      else Inr (True, shownBookings))"

fun filter_stateful ::
  "('s \<Rightarrow> 'a \<Rightarrow> jsError + bool \<times> 's) \<Rightarrow> 's \<Rightarrow> 'a list \<Rightarrow> jsError + 'a list" where
  "filter_stateful f s [] = Inr []"
| "filter_stateful f s (x # xs) =
     (case f s x of
        Inl err \<Rightarrow> Inl err
      | Inr (keep, s') \<Rightarrow>
          (case filter_stateful f s' xs of
             Inl err \<Rightarrow> Inl err
           | Inr ys \<Rightarrow> Inr (if keep then x # ys else ys)))"

definition keptBookings :: "env \<Rightarrow> status \<Rightarrow> booking list \<Rightarrow> jsError + booking list" where
  "keptBookings e st bs =
     filter_stateful (filterBookings e st) \<lparr>own = Map.empty, protoArray = None\<rparr> bs"

text \<open>
  \<^verbatim>\<open>monthBuckets\<close> is an object with \<^verbatim>\<open>"YYYY-MM"\<close> keys; such keys are never array
  indices, so \<^verbatim>\<open>Object.keys\<close> and \<^verbatim>\<open>Object.values\<close> enumerate it in insertion order: an
  association list. \<open>bucket_push\<close> is
  \<^verbatim>\<open>if (!monthBuckets[monthKey]) monthBuckets[monthKey] = []; monthBuckets[monthKey].push(rowData)\<close>.
\<close>

definition bucket_push ::
  "string \<Rightarrow> rowData \<Rightarrow> (string \<times> rowData list) list \<Rightarrow> (string \<times> rowData list) list" where
  "bucket_push monthKey rowData mb =
     (let mb' = (if map_of mb monthKey = None then mb @ [(monthKey, [])] else mb)
      in map (\<lambda>(k, rows). if k = monthKey then (k, rows @ [rowData]) else (k, rows)) mb')"

text \<open>The row built for a booking, and the body of the \<^verbatim>\<open>forEach\<close> over the kept bookings.\<close>

definition bookingDate :: "env \<Rightarrow> booking \<Rightarrow> dayjs" where
  "bookingDate e b = tz e (startTime b)"

definition todayStr :: "env \<Rightarrow> string" where
  "todayStr e = format_YYYY_MM_DD (tz e (nowMs e))"

definition currentMonthStart :: "env \<Rightarrow> dayjs" where
  "currentMonthStart e = startOfMonth e (tz e (nowMs e))"

definition currentMonthEnd :: "env \<Rightarrow> dayjs" where
  "currentMonthEnd e = endOfMonth e (tz e (nowMs e))"

definition rowOf :: "env \<Rightarrow> queryData \<Rightarrow> booking \<Rightarrow> rowData" where
  "rowOf e q b =
     Data b (format_YYYY_MM_DD (bookingDate e b) = todayStr e)
       (find (\<lambda>info. info_recurringEventId info = recurringEventId b) (recurringInfos q))"

definition groupStep :: "env \<Rightarrow> queryData \<Rightarrow> groupedBookingsT \<Rightarrow> booking \<Rightarrow> groupedBookingsT" where
  "groupStep e q g b =
     (let bd = bookingDate e b;
          bookingDateStr = format_YYYY_MM_DD bd;
          monthKey = format_YYYY_MM bd;
          rowData = rowOf e q b
      in if bookingDateStr = todayStr e then g\<lparr>today := today g @ [rowData]\<rparr>
         else if isAfter bd (currentMonthStart e) \<and> isBefore bd (currentMonthEnd e)
           then g\<lparr>currentMonth := currentMonth g @ [rowData]\<rparr>
         else if isAfter bd (currentMonthEnd e)
           then g\<lparr>monthBuckets := bucket_push monthKey rowData (monthBuckets g)\<rparr>
         else g)"

text \<open>An exception of the filter leaves the \<^verbatim>\<open>useMemo\<close> callback, and every value computed from it.\<close>

definition groupedBookings ::
  "env \<Rightarrow> status \<Rightarrow> queryData option \<Rightarrow> jsError + groupedBookingsT" where
  "groupedBookings e st qd =
     (case qd of
        None \<Rightarrow> Inr \<lparr>today = [], currentMonth = [], monthBuckets = []\<rparr>
      | Some q \<Rightarrow>
          (case keptBookings e st (bookings q) of
             Inl err \<Rightarrow> Inl err
           | Inr kept \<Rightarrow>
               Inr (foldl (groupStep e q) \<lparr>today = [], currentMonth = [], monthBuckets = []\<rparr>
                      kept)))"

text \<open>
  The three branch conditions of \<open>groupStep\<close>, in the order of the \<^verbatim>\<open>if\<close> chain, and the
  bucket key, as functions of the booking.
\<close>

definition in_today :: "env \<Rightarrow> booking \<Rightarrow> bool" where
  "in_today e b = (format_YYYY_MM_DD (bookingDate e b) = todayStr e)"

definition in_currentMonth :: "env \<Rightarrow> booking \<Rightarrow> bool" where
  "in_currentMonth e b =
     (\<not> in_today e b \<and> isAfter (bookingDate e b) (currentMonthStart e)
      \<and> isBefore (bookingDate e b) (currentMonthEnd e))"

definition in_futureMonth :: "env \<Rightarrow> booking \<Rightarrow> bool" where
  "in_futureMonth e b =
     (\<not> in_today e b \<and> \<not> in_currentMonth e b \<and> isAfter (bookingDate e b) (currentMonthEnd e))"

definition monthKeyOf :: "env \<Rightarrow> booking \<Rightarrow> string" where
  "monthKeyOf e b = format_YYYY_MM (bookingDate e b)"

definition flatData :: "groupedBookingsT \<Rightarrow> rowData list" where
  "flatData g = currentMonth g @ concat (map snd (monthBuckets g))"

definition bookingsToday :: "groupedBookingsT \<Rightarrow> rowData list" where
  "bookingsToday g = today g"

text \<open>
  \<^verbatim>\<open>Object.keys(...).sort()\<close> sorts the keys as strings, by code unit; every key it yields
  is a key of the object, so the lookup in the loop body always finds its bucket (the
  \<open>None\<close> branch below is never taken: lemma \<open>sorted_keys_present\<close>). \<open>mergedData\<close> is
  the part of \<^verbatim>\<open>finalData\<close> after the early return for a status other than upcoming.
\<close>

definition monthSection ::
  "env \<Rightarrow> (string \<times> rowData list) list \<Rightarrow> rowData list \<Rightarrow> string \<Rightarrow> rowData list" where
  "monthSection e mb merged monthKey =
     (case map_of mb monthKey of
        None \<Rightarrow> merged
      | Some rows \<Rightarrow>
          if length rows > 0 then merged @ Separator (monthLabel e monthKey) # rows else merged)"

definition mergedData :: "env \<Rightarrow> groupedBookingsT \<Rightarrow> rowData list" where
  "mergedData e g =
     (let merged0 = [];
          merged1 = (if length (today g) > 0
                     then merged0 @ Separator (translate e ''today'') # today g
                     else merged0);
          merged2 = (if length (currentMonth g) > 0
                     then merged1 @ Separator (translate e ''this_month'') # currentMonth g
                     else merged1);
          sortedMonthKeys = sort (map fst (monthBuckets g))
      in foldl (monthSection e (monthBuckets g)) merged2 sortedMonthKeys)"

definition finalData :: "env \<Rightarrow> status \<Rightarrow> queryData option \<Rightarrow> jsError + rowData list" where
  "finalData e st qd =
     (case groupedBookings e st qd of
        Inl err \<Rightarrow> Inl err
      | Inr g \<Rightarrow> Inr (if st \<noteq> upcoming then flatData g else mergedData e g))"

section \<open>Notions used to state the properties\<close>

text \<open>
  \<open>first_occ\<close> lists the elements of a list once each, in the order of their first
  occurrence: the order in which keys enter a JavaScript object. \<open>bucketRows\<close> are the
  rows of the kept bookings that fall into the future month with a given key, in input
  order, and \<open>groupedSpec\<close> is the grouping written with \<open>filter\<close> instead of a loop;
  lemma \<open>groupedBookings_Inr\<close> shows that the loop computes it.
\<close>

definition first_occ :: "'a list \<Rightarrow> 'a list" where
  "first_occ xs = rev (remdups (rev xs))"

definition bucketRows :: "env \<Rightarrow> queryData \<Rightarrow> booking list \<Rightarrow> string \<Rightarrow> rowData list" where
  "bucketRows e q bs k = map (rowOf e q) (filter (\<lambda>b. in_futureMonth e b \<and> monthKeyOf e b = k) bs)"

definition groupedSpec :: "env \<Rightarrow> queryData \<Rightarrow> booking list \<Rightarrow> groupedBookingsT" where
  "groupedSpec e q bs =
     \<lparr>today = map (rowOf e q) (filter (in_today e) bs),
      currentMonth = map (rowOf e q) (filter (in_currentMonth e) bs),
      monthBuckets = map (\<lambda>k. (k, bucketRows e q bs k))
                       (first_occ (map (monthKeyOf e) (filter (in_futureMonth e) bs)))\<rparr>"

text \<open>
  The statuses for which \<open>filterBookings\<close> deduplicates; the recurring ids that name a
  member of \<^verbatim>\<open>Object.prototype\<close>; the series that the dictionary has seen; and the
  invariant of the dictionary: its arrays are not empty, and \<^verbatim>\<open>__proto__\<close> is never an
  own property.
\<close>

definition dedups :: "status \<Rightarrow> bool" where
  "dedups st = (st = recurring \<or> st = unconfirmed \<or> st = cancelled)"

definition names_prototype_member :: "env \<Rightarrow> booking \<Rightarrow> bool" where
  "names_prototype_member e b =
     (case recurring_key b of
        None \<Rightarrow> False
      | Some r \<Rightarrow> r = ''__proto__'' \<or> objectPrototype e r \<noteq> None)"

definition seen :: "shownState \<Rightarrow> string \<Rightarrow> bool" where
  "seen s r = (own s r \<noteq> None \<or> (r = ''__proto__'' \<and> protoArray s \<noteq> None))"

definition shown_inv :: "shownState \<Rightarrow> bool" where
  "shown_inv s =
     ((\<forall>r l. own s r = Some l \<longrightarrow> l \<noteq> []) \<and> protoArray s \<noteq> Some []
      \<and> own s ''__proto__'' = None)"

text \<open>
  A section of the merged list (nothing for an empty bucket), the sorted keys of the
  future months that have a booking, the lookup \<^verbatim>\<open>monthBuckets[k]\<close>, and two readers of
  a row.
\<close>

definition section_rows :: "string \<Rightarrow> rowData list \<Rightarrow> rowData list" where
  "section_rows l rows = (if rows = [] then [] else Separator l # rows)"

definition futureKeys :: "env \<Rightarrow> booking list \<Rightarrow> string list" where
  "futureKeys e bs = sort (remdups (map (monthKeyOf e) (filter (in_futureMonth e) bs)))"

definition bucket :: "groupedBookingsT \<Rightarrow> string \<Rightarrow> rowData list" where
  "bucket g k = (case map_of (monthBuckets g) k of None \<Rightarrow> [] | Some rows \<Rightarrow> rows)"

definition isSeparatorRow :: "rowData \<Rightarrow> bool" where
  "isSeparatorRow r = (case r of Data _ _ _ \<Rightarrow> False | Separator _ \<Rightarrow> True)"

definition row_series :: "rowData \<Rightarrow> string option" where
  "row_series r = (case r of Data b _ _ \<Rightarrow> recurringEventId b | Separator _ \<Rightarrow> None)"

section \<open>Concrete stores and bookings\<close>

text \<open>
  A store in which user 1 owns organization 10 through a membership that is not
  accepted, and a store with two organizations and a team 11 under organization 20.
  \<open>grant\<close> is an access check that lets everyone in.
\<close>

definition store_unaccepted_admin :: db where
  "store_unaccepted_admin =
     \<lparr>memberships =
        [\<lparr>userId = 1, teamId = 10, role = OWNER, accepted = False\<rparr>,
         \<lparr>userId = 2, teamId = 10, role = MEMBER, accepted = True\<rparr>,
         \<lparr>userId = 3, teamId = 10, role = MEMBER, accepted = False\<rparr>,
         \<lparr>userId = 4, teamId = 11, role = MEMBER, accepted = True\<rparr>],
      teams =
        [\<lparr>team_id = 10, team_isOrganization = True, team_parentId = None\<rparr>,
         \<lparr>team_id = 11, team_isOrganization = False, team_parentId = Some 10\<rparr>]\<rparr>"

definition store_two_orgs :: db where
  "store_two_orgs =
     \<lparr>memberships = [],
      teams =
        [\<lparr>team_id = 10, team_isOrganization = True, team_parentId = None\<rparr>,
         \<lparr>team_id = 20, team_isOrganization = True, team_parentId = None\<rparr>,
         \<lparr>team_id = 11, team_isOrganization = False, team_parentId = Some 20\<rparr>]\<rparr>"

definition grant :: "unit \<Rightarrow> int \<Rightarrow> string \<times> bool" where
  "grant u oid = ('''', True)"

text \<open>
  The clock reads 2025-06-15 12:00 UTC. The bookings start on 2025-06-15 13:00 (today),
  2025-06-22 09:00, 2025-07-10 09:00, 2025-09-03 09:00 and 2025-05-10 09:00, all UTC; the
  three bookings \<open>s1\<close>, \<open>s2\<close>, \<open>s3\<close> belong to one recurring series and start at the
  first three of these times. The recurring id of \<open>c1\<close> is the name of a member of
  \<^verbatim>\<open>Object.prototype\<close>.
\<close>

definition june15 :: env where "june15 = utc_env 1749988800000"

definition b_today :: booking where
  "b_today = \<lparr>uid = ''bk-today'', recurringEventId = None, startTime = 1749992400000\<rparr>"

definition b_week :: booking where
  "b_week = \<lparr>uid = ''bk-week'', recurringEventId = None, startTime = 1750582800000\<rparr>"

definition b_july :: booking where
  "b_july = \<lparr>uid = ''bk-july'', recurringEventId = None, startTime = 1752138000000\<rparr>"

definition b_sept :: booking where
  "b_sept = \<lparr>uid = ''bk-sept'', recurringEventId = None, startTime = 1756890000000\<rparr>"

definition b_may :: booking where
  "b_may = \<lparr>uid = ''bk-may'', recurringEventId = None, startTime = 1746867600000\<rparr>"

definition s1 :: booking where
  "s1 = \<lparr>uid = ''series-1'', recurringEventId = Some ''weekly'', startTime = 1749992400000\<rparr>"

definition s2 :: booking where
  "s2 = \<lparr>uid = ''series-2'', recurringEventId = Some ''weekly'', startTime = 1750582800000\<rparr>"

definition s3 :: booking where
  "s3 = \<lparr>uid = ''series-3'', recurringEventId = Some ''weekly'', startTime = 1752138000000\<rparr>"

definition c1 :: booking where
  "c1 = \<lparr>uid = ''ctor-1'', recurringEventId = Some ''constructor'', startTime = 1750582800000\<rparr>"

definition q_four :: queryData where
  "q_four = \<lparr>bookings = [b_sept, b_today, b_week, b_july], recurringInfos = []\<rparr>"

definition q_five :: queryData where
  "q_five = \<lparr>bookings = [b_sept, b_today, b_week, b_july, b_may], recurringInfos = []\<rparr>"

definition q_series :: queryData where
  "q_series = \<lparr>bookings = [s1, s2, s3], recurringInfos = []\<rparr>"

definition q_may :: queryData where
  "q_may = \<lparr>bookings = [b_may], recurringInfos = []\<rparr>"

definition q_shown :: queryData where
  "q_shown = \<lparr>bookings = [s2, b_today, s3], recurringInfos = []\<rparr>"

definition q_ctor :: queryData where
  "q_ctor = \<lparr>bookings = [c1, b_week], recurringInfos = []\<rparr>"

section \<open>The accessible-users resolver\<close>

lemmas store_eval =
  store_unaccepted_admin_def getAccessibleUsers_def getAccessibleUsers_v2_def
  retrieveOrgScopedAccessibleUsers_def retrieveOrgScopedAccessibleUsers_v2_def
  findFirst_membership_def findMany_membership_def adminOrgWhere_def adminOrgWhere_v2_def
  team_is_organization_def team_of_def

text \<open>
  C5. The two variants of \<^verbatim>\<open>getAccessibleUsers\<close> are not extensionally equal. In the
  store \<open>store_unaccepted_admin\<close> the only OWNER or ADMIN membership of user 1 in an
  organization is not accepted; the first variant, which does not look at \<^verbatim>\<open>accepted\<close>
  in the admin lookup, returns the accepted member 2, and the second variant returns
  the empty list.
\<close>

theorem getAccessibleUsers_variants_differ:
  "filter (adminOrgWhere store_unaccepted_admin 1) (memberships store_unaccepted_admin)
     = [\<lparr>userId = 1, teamId = 10, role = OWNER, accepted = False\<rparr>]
   \<and> fst (getAccessibleUsers store_unaccepted_admin [2, 3, 4] 1) = [2]
   \<and> fst (getAccessibleUsers_v2 store_unaccepted_admin [2, 3, 4] 1) = []"
  by (simp add: store_eval)

text \<open>
  C6, as the code has it. With an empty candidate list \<^verbatim>\<open>getAccessibleUsers\<close> returns the
  empty list, and the log of its calls is exactly one \<^verbatim>\<open>membership.findFirst\<close>: the
  lookup of the admin's membership comes before the test for an empty list, so the
  short-circuit saves the \<^verbatim>\<open>findMany\<close> round trip and not the first one. Both variants
  agree on this.
\<close>

theorem getAccessibleUsers_empty_candidates:
  "getAccessibleUsers d [] adminUserId = ([], [membership_findFirst])
   \<and> getAccessibleUsers_v2 d [] adminUserId = ([], [membership_findFirst])"
  by (simp add: getAccessibleUsers_def getAccessibleUsers_v2_def findFirst_membership_def
      split: option.splits)

theorem getAccessibleUsers_empty_candidates_witness:
  "getAccessibleUsers store_two_orgs [] 7 = ([], [membership_findFirst])"
  using getAccessibleUsers_empty_candidates [of store_two_orgs 7] by simp

text \<open>
  C6, as stated, fails: the call with no candidates does query the membership store.
\<close>

theorem getAccessibleUsers_empty_queries_counterexample:
  "getAccessibleUsers store_unaccepted_admin [] 1 = ([], [membership_findFirst])"
  by (simp add: store_eval)

text \<open>
  C8. An admin who has no OWNER or ADMIN membership in a team flagged as an organization
  gets the empty list from \<^verbatim>\<open>getAccessibleUsers\<close>, whatever the candidates, and from
  \<^verbatim>\<open>retrieveOrgScopedAccessibleUsers\<close>; the same holds for the second variant of both.
\<close>

theorem no_org_admin_membership_empty:
  assumes "\<not> (\<exists>m \<in> set (memberships d).
              userId m = admin \<and> (role m = OWNER \<or> role m = ADMIN) \<and> team_is_organization d m)"
  shows "fst (getAccessibleUsers d ids admin) = []
       \<and> fst (retrieveOrgScopedAccessibleUsers d admin) = []
       \<and> fst (getAccessibleUsers_v2 d ids admin) = []
       \<and> fst (retrieveOrgScopedAccessibleUsers_v2 d admin) = []"
proof -
  from assms have "find (adminOrgWhere d admin) (memberships d) = None"
    by (auto simp: find_None_iff adminOrgWhere_def)
  moreover from assms have "find (adminOrgWhere_v2 d admin) (memberships d) = None"
    by (auto simp: find_None_iff adminOrgWhere_v2_def)
  ultimately show ?thesis
    by (simp add: getAccessibleUsers_def getAccessibleUsers_v2_def
        retrieveOrgScopedAccessibleUsers_def retrieveOrgScopedAccessibleUsers_v2_def
        findFirst_membership_def)
qed

theorem no_org_admin_membership_empty_witness:
  "fst (getAccessibleUsers store_unaccepted_admin [2, 3, 4] 2) = []
   \<and> fst (retrieveOrgScopedAccessibleUsers store_unaccepted_admin 2) = []
   \<and> fst (retrieveOrgScopedAccessibleUsers store_unaccepted_admin 1) = [2]"
proof -
  have "\<not> (\<exists>m \<in> set (memberships store_unaccepted_admin).
              userId m = 2 \<and> (role m = OWNER \<or> role m = ADMIN)
              \<and> team_is_organization store_unaccepted_admin m)"
    by (simp add: store_unaccepted_admin_def)
  from no_org_admin_membership_empty [OF this, of "[2, 3, 4]"]
  show ?thesis by (simp add: store_eval)
qed

text \<open>
  C9. When the admin has an OWNER or ADMIN membership in an organization and the candidate
  list is not empty, the ids returned by \<^verbatim>\<open>getAccessibleUsers\<close> are, as a set, exactly the
  candidates that have an accepted membership in the admin's organization (the team of
  the membership that the admin lookup finds).
\<close>

theorem getAccessibleUsers_accepted_members:
  assumes "\<exists>m \<in> set (memberships d). adminOrgWhere d admin m" and "ids \<noteq> []"
  shows "\<exists>aom. find (adminOrgWhere d admin) (memberships d) = Some aom
           \<and> set (fst (getAccessibleUsers d ids admin))
             = {u \<in> set ids. \<exists>m \<in> set (memberships d).
                                userId m = u \<and> teamId m = teamId aom \<and> accepted m}"
proof -
  from assms(1) obtain aom where f: "find (adminOrgWhere d admin) (memberships d) = Some aom"
    by (cases "find (adminOrgWhere d admin) (memberships d)") (auto simp: find_None_iff)
  with assms(2) have "set (fst (getAccessibleUsers d ids admin))
             = {u \<in> set ids. \<exists>m \<in> set (memberships d).
                                userId m = u \<and> teamId m = teamId aom \<and> accepted m}"
    by (auto simp: getAccessibleUsers_def findFirst_membership_def findMany_membership_def)
  with f show ?thesis by blast
qed

theorem getAccessibleUsers_accepted_members_witness:
  "set (fst (getAccessibleUsers store_unaccepted_admin [4, 3, 2] 1)) = {2}"
proof -
  have "\<exists>m \<in> set (memberships store_unaccepted_admin). adminOrgWhere store_unaccepted_admin 1 m"
    by (simp add: store_eval)
  from getAccessibleUsers_accepted_members [OF this, of "[4, 3, 2]"]
  show ?thesis by (simp add: store_eval)
qed

section \<open>The guard\<close>

lemma guard_no_org:
  "\<not> truthy orgId \<Longrightarrow> userCanCreateTeamGroupMapping can d u orgId tid =
     (Inl \<lparr>statusCode = 400, message = ''Could not find organization id''\<rparr>, [])"
  by (auto simp: userCanCreateTeamGroupMapping_def truthy_def split: option.splits bool.splits)

lemma guard_org:
  "oid \<noteq> 0 \<Longrightarrow> userCanCreateTeamGroupMapping can d u (Some oid) tid =
     (if \<not> snd (can u oid) then (Inl \<lparr>statusCode = 400, message = fst (can u oid)\<rparr>, [])
      else if truthy tid
        then (case find (\<lambda>t. team_id t = the tid \<and> team_parentId t = Some oid) (teams d) of
                None \<Rightarrow> (Inl \<lparr>statusCode = 400, message = ''Could not find team''\<rparr>, [team_findFirst])
              | Some t \<Rightarrow> (Inr \<lparr>organizationId = oid\<rparr>, [team_findFirst]))
        else (Inr \<lparr>organizationId = oid\<rparr>, []))"
  by (auto simp: userCanCreateTeamGroupMapping_def truthy_def findFirst_team_def
      split: option.splits bool.splits prod.splits)

text \<open>
  C4, as the code has it. (a) With a null organization id the guard throws the 400 error
  ``Could not find organization id''. (b) With an organization id and a non-zero team id,
  it throws a 400 error unless the team table has a team with that id whose parent is
  exactly the organization id; a team with that id and another parent does not help.
  (c) A call that returns carries the organization id it was given.
\<close>

theorem guard_bad_request:
  "fst (userCanCreateTeamGroupMapping can d u None tidArg)
     = Inl \<lparr>statusCode = 400, message = ''Could not find organization id''\<rparr>
   \<and> (tid \<noteq> 0 \<and> \<not> (\<exists>t \<in> set (teams d). team_id t = tid \<and> team_parentId t = Some oid)
        \<longrightarrow> (\<exists>msg. fst (userCanCreateTeamGroupMapping can d u (Some oid) (Some tid))
                     = Inl \<lparr>statusCode = 400, message = msg\<rparr>))
   \<and> (fst (userCanCreateTeamGroupMapping can d u orgId tidArg) = Inr r
        \<longrightarrow> orgId = Some (organizationId r))"
proof (intro conjI impI)
  show "fst (userCanCreateTeamGroupMapping can d u None tidArg)
     = Inl \<lparr>statusCode = 400, message = ''Could not find organization id''\<rparr>"
    by (simp add: guard_no_org truthy_def)
next
  assume a: "tid \<noteq> 0 \<and> \<not> (\<exists>t \<in> set (teams d). team_id t = tid \<and> team_parentId t = Some oid)"
  then have nf: "find (\<lambda>t. team_id t = tid \<and> team_parentId t = Some oid) (teams d) = None"
    by (auto simp: find_None_iff)
  show "\<exists>msg. fst (userCanCreateTeamGroupMapping can d u (Some oid) (Some tid))
                     = Inl \<lparr>statusCode = 400, message = msg\<rparr>"
  proof (cases "oid = 0")
    case True
    then show ?thesis by (simp add: guard_no_org truthy_def)
  next
    case False
    with a nf show ?thesis by (simp add: guard_org truthy_def)
  qed
next
  assume r: "fst (userCanCreateTeamGroupMapping can d u orgId tidArg) = Inr r"
  show "orgId = Some (organizationId r)"
  proof (cases "truthy orgId")
    case False
    with r show ?thesis by (simp add: guard_no_org)
  next
    case True
    then obtain oid where o: "orgId = Some oid" "oid \<noteq> 0"
      by (auto simp: truthy_def split: option.splits)
    with r show ?thesis
      by (auto simp: guard_org split: if_splits option.splits)
  qed
qed

theorem guard_bad_request_witness:
  "fst (userCanCreateTeamGroupMapping grant store_two_orgs () None (Some 11))
     = Inl \<lparr>statusCode = 400, message = ''Could not find organization id''\<rparr>
   \<and> fst (userCanCreateTeamGroupMapping grant store_two_orgs () (Some 10) (Some 11))
     = Inl \<lparr>statusCode = 400, message = ''Could not find team''\<rparr>
   \<and> fst (userCanCreateTeamGroupMapping grant store_two_orgs () (Some 20) (Some 11))
     = Inr \<lparr>organizationId = 20\<rparr>"
proof -
  have "(11::int) \<noteq> 0 \<and> \<not> (\<exists>t \<in> set (teams store_two_orgs). team_id t = 11 \<and> team_parentId t = Some 10)"
    by (simp add: store_two_orgs_def)
  with guard_bad_request [of grant store_two_orgs "()" "Some 11" 11 10 "Some 20" "\<lparr>organizationId = 20\<rparr>"]
  show ?thesis
    by (simp add: userCanCreateTeamGroupMapping_def truthy_def grant_def store_two_orgs_def findFirst_team_def)
qed

text \<open>
  C4, as stated, fails for a supplied team id of 0: no team has this id, and the guard
  returns the organization id without looking at the team table.
\<close>

theorem guard_counterexample:
  "find (\<lambda>t. team_id t = 0) (teams store_two_orgs) = None
   \<and> userCanCreateTeamGroupMapping grant store_two_orgs () (Some 20) (Some 0)
       = (Inr \<lparr>organizationId = 20\<rparr>, [])"
  by (simp add: userCanCreateTeamGroupMapping_def truthy_def grant_def store_two_orgs_def)

text \<open>
  C10. The guard tests truthiness. An organization id of 0 gives the same result as a
  null one, the 400 error ``Could not find organization id''; a team id of 0 with a
  non-zero organization id that passes the access check returns the organization id
  with no query to the team table, whatever the table holds.
\<close>

theorem guard_truthiness:
  "userCanCreateTeamGroupMapping can d u (Some 0) tidArg
     = userCanCreateTeamGroupMapping can d u None tidArg
   \<and> fst (userCanCreateTeamGroupMapping can d u (Some 0) tidArg)
     = Inl \<lparr>statusCode = 400, message = ''Could not find organization id''\<rparr>
   \<and> (oid \<noteq> 0 \<and> snd (can u oid)
        \<longrightarrow> userCanCreateTeamGroupMapping can d u (Some oid) (Some 0)
              = (Inr \<lparr>organizationId = oid\<rparr>, []))"
  by (simp add: guard_no_org guard_org truthy_def)

theorem guard_truthiness_witness:
  "userCanCreateTeamGroupMapping grant store_two_orgs () (Some 10) (Some 0)
     = (Inr \<lparr>organizationId = 10\<rparr>, [])
   \<and> fst (userCanCreateTeamGroupMapping grant store_two_orgs () (Some 0) (Some 11))
     = Inl \<lparr>statusCode = 400, message = ''Could not find organization id''\<rparr>"
  using guard_truthiness [of grant store_two_orgs "()" "Some 11" 10]
  by (simp add: grant_def userCanCreateTeamGroupMapping_def truthy_def)

section \<open>The date format\<close>

text \<open>
  The month keys are compared as strings. For years of at most four digits the string
  order of \<^verbatim>\<open>"YYYY-MM"\<close> is the chronological order of year and month.
\<close>

lemma of_char_digit_char:
  assumes "n < 10"
  shows "of_char (digit_char n) = 48 + n"
proof -
  have "list_all (\<lambda>k. of_char (digit_char k) = 48 + k) [0..<10]"
    by code_simp
  with assms show ?thesis by (simp add: list_all_iff)
qed

lemma digit_char_mod: "digit_char n = digit_char (n mod 10)"
  by (simp add: digit_char_def)

lemma digit_char_less: "a < 10 \<Longrightarrow> b < 10 \<Longrightarrow> digit_char a < digit_char b \<longleftrightarrow> a < b"
  by (simp add: less_char_def of_char_digit_char)

lemma digit_char_0: "digit_char 0 = CHR ''0''"
  by (simp add: digit_char_def)

lemma padStart_step:
  assumes "1 \<le> w"
  shows "padStart (Suc w) (show_nat n) = padStart w (show_nat (n div 10)) @ [digit_char n]"
proof (cases "n < 10")
  case True
  then have "show_nat n = [digit_char n]" "show_nat (n div 10) = [CHR ''0'']"
    by (simp_all add: show_nat.simps [of n] show_nat.simps [of 0] digit_char_0)
  moreover have "replicate w CHR ''0'' = replicate (w - 1) CHR ''0'' @ [CHR ''0'']"
    using assms by (cases w) (simp_all add: replicate_append_same)
  ultimately show ?thesis by (simp add: padStart_def)
next
  case False
  then have "show_nat n = show_nat (n div 10) @ [digit_char n]"
    by (simp add: show_nat.simps [of n])
  then show ?thesis by (simp add: padStart_def)
qed

lemma append_less_iff:
  fixes xs ys :: "'a::linorder list"
  shows "length xs = length ys \<Longrightarrow> xs @ us < ys @ vs \<longleftrightarrow> xs < ys \<or> (xs = ys \<and> us < vs)"
  by (induction xs ys rule: list_induct2) auto

lemma padStart_length:
  "1 \<le> w \<Longrightarrow> n < 10 ^ w \<Longrightarrow> length (padStart w (show_nat n)) = w"
proof (induction w arbitrary: n rule: nat_induct_at_least)
  case base
  then show ?case by (simp add: padStart_def show_nat.simps [of n])
next
  case (Suc w)
  from Suc.prems have "n div 10 < 10 ^ w" by (simp add: less_mult_imp_div_less)
  with Suc.IH Suc.hyps show ?case by (simp add: padStart_step)
qed

lemma padStart_strict_mono:
  "1 \<le> w \<Longrightarrow> n < m \<Longrightarrow> m < 10 ^ w \<Longrightarrow> padStart w (show_nat n) < padStart w (show_nat m)"
proof (induction w arbitrary: n m rule: nat_induct_at_least)
  case base
  then show ?case
    by (simp add: padStart_def show_nat.simps [of n] show_nat.simps [of m] digit_char_less)
next
  case (Suc w)
  have m10: "m div 10 < 10 ^ w" using Suc.prems by (simp add: less_mult_imp_div_less)
  have n10: "n div 10 < 10 ^ w" using Suc.prems by (simp add: less_mult_imp_div_less)
  have len: "length (padStart w (show_nat (n div 10))) = length (padStart w (show_nat (m div 10)))"
    using Suc.hyps m10 n10 by (simp add: padStart_length)
  have le: "n div 10 \<le> m div 10" using Suc.prems by (simp add: div_le_mono)
  show ?case
  proof (cases "n div 10 < m div 10")
    case True
    with Suc.IH m10 have "padStart w (show_nat (n div 10)) < padStart w (show_nat (m div 10))"
      by simp
    with len Suc.hyps show ?thesis by (simp add: padStart_step append_less_iff)
  next
    case False
    with le have eq: "n div 10 = m div 10" by simp
    with Suc.prems have "n mod 10 < m mod 10"
      by (metis div_mult_mod_eq nat_add_left_cancel_less)
    then have "digit_char n < digit_char m"
      by (subst digit_char_mod, subst (2) digit_char_mod) (simp add: digit_char_less)
    with eq Suc.hyps show ?thesis by (simp add: padStart_step append_less_iff)
  qed
qed

lemma padStart_less_iff:
  assumes "1 \<le> w" "n < 10 ^ w" "m < 10 ^ w"
  shows "padStart w (show_nat n) < padStart w (show_nat m) \<longleftrightarrow> n < m"
proof
  assume l: "padStart w (show_nat n) < padStart w (show_nat m)"
  show "n < m"
  proof (rule ccontr)
    assume "\<not> n < m"
    then consider "m < n" | "m = n" by arith
    then show False
    proof cases
      case 1
      with assms have "padStart w (show_nat m) < padStart w (show_nat n)"
        by (simp add: padStart_strict_mono)
      with l show False by simp
    next
      case 2
      with l show False by simp
    qed
  qed
next
  assume "n < m"
  with assms show "padStart w (show_nat n) < padStart w (show_nat m)"
    by (simp add: padStart_strict_mono)
qed

lemma padStart_eq_iff:
  assumes "1 \<le> w" "n < 10 ^ w" "m < 10 ^ w"
  shows "padStart w (show_nat n) = padStart w (show_nat m) \<longleftrightarrow> n = m"
proof
  assume e: "padStart w (show_nat n) = padStart w (show_nat m)"
  show "n = m"
  proof (rule ccontr)
    assume "n \<noteq> m"
    then consider "n < m" | "m < n" by arith
    then show False
      using padStart_strict_mono [OF assms(1) _ assms(3), of n]
            padStart_strict_mono [OF assms(1) _ assms(2), of m] e
      by cases auto
  qed
qed simp

lemma format_YYYY_MM_chronological:
  assumes "year a < 10000" "year b < 10000" "monthOfYear a < 100" "monthOfYear b < 100"
  shows "format_YYYY_MM a < format_YYYY_MM b
         \<longleftrightarrow> year a < year b \<or> (year a = year b \<and> monthOfYear a < monthOfYear b)"
proof -
  have len: "length (padStart 4 (show_nat (year a))) = length (padStart 4 (show_nat (year b)))"
    using assms by (simp add: padStart_length)
  have y: "padStart 4 (show_nat (year a)) < padStart 4 (show_nat (year b)) \<longleftrightarrow> year a < year b"
    "padStart 4 (show_nat (year a)) = padStart 4 (show_nat (year b)) \<longleftrightarrow> year a = year b"
    using assms by (simp_all add: padStart_less_iff padStart_eq_iff)
  have m: "padStart 2 (show_nat (monthOfYear a)) < padStart 2 (show_nat (monthOfYear b))
           \<longleftrightarrow> monthOfYear a < monthOfYear b"
    using assms by (simp add: padStart_less_iff)
  show ?thesis
    unfolding format_YYYY_MM_def using len by (simp add: append_less_iff y m)
qed

lemma monthKeyOf_chronological:
  assumes "year (bookingDate e a) < 10000" "year (bookingDate e b) < 10000"
    "monthOfYear (bookingDate e a) < 100" "monthOfYear (bookingDate e b) < 100"
  shows "monthKeyOf e a < monthKeyOf e b
         \<longleftrightarrow> year (bookingDate e a) < year (bookingDate e b)
             \<or> (year (bookingDate e a) = year (bookingDate e b)
                 \<and> monthOfYear (bookingDate e a) < monthOfYear (bookingDate e b))"
  unfolding monthKeyOf_def using assms by (rule format_YYYY_MM_chronological)

section \<open>Grouping: the loop computes the partition\<close>

lemma first_occ_snoc:
  "first_occ (xs @ [x]) = (if x \<in> set xs then first_occ xs else first_occ xs @ [x])"
  by (simp add: first_occ_def)

lemma set_first_occ [simp]: "set (first_occ xs) = set xs"
  by (simp add: first_occ_def)

lemma distinct_first_occ [simp]: "distinct (first_occ xs)"
  by (simp add: first_occ_def)

lemma first_occ_Nil [simp]: "first_occ [] = []"
  by (simp add: first_occ_def)

lemma map_of_keyed:
  "map_of (map (\<lambda>k. (k, f k)) ks) k = (if k \<in> set ks then Some (f k) else None)"
  by (induction ks) auto

lemma bucket_push_keyed:
  assumes "k \<notin> set ks \<Longrightarrow> f k = []"
  shows "bucket_push k r (map (\<lambda>k'. (k', f k')) ks)
         = map (\<lambda>k'. (k', if k' = k then f k' @ [r] else f k'))
             (if k \<in> set ks then ks else ks @ [k])"
  using assms by (simp add: bucket_push_def map_of_keyed Let_def)

lemma groupStep_cases:
  "groupStep e q g b =
     (if in_today e b then g\<lparr>today := today g @ [rowOf e q b]\<rparr>
      else if in_currentMonth e b then g\<lparr>currentMonth := currentMonth g @ [rowOf e q b]\<rparr>
      else if in_futureMonth e b
        then g\<lparr>monthBuckets := bucket_push (monthKeyOf e b) (rowOf e q b) (monthBuckets g)\<rparr>
      else g)"
  by (simp add: groupStep_def in_today_def in_currentMonth_def in_futureMonth_def monthKeyOf_def
      Let_def)

lemma foldl_groupStep:
  "foldl (groupStep e q) \<lparr>today = [], currentMonth = [], monthBuckets = []\<rparr> bs = groupedSpec e q bs"
proof (induction bs rule: rev_induct)
  case Nil
  show ?case by (simp add: groupedSpec_def)
next
  case (snoc b bs)
  have step: "foldl (groupStep e q) \<lparr>today = [], currentMonth = [], monthBuckets = []\<rparr> (bs @ [b])
        = groupStep e q (groupedSpec e q bs) b"
    by (simp add: snoc.IH)
  consider (T) "in_today e b" | (C) "\<not> in_today e b" "in_currentMonth e b"
    | (F) "\<not> in_today e b" "\<not> in_currentMonth e b" "in_futureMonth e b"
    | (N) "\<not> in_today e b" "\<not> in_currentMonth e b" "\<not> in_futureMonth e b"
    by blast
  then show ?case
  proof cases
    case T
    then have "\<not> in_currentMonth e b" "\<not> in_futureMonth e b"
      by (simp_all add: in_currentMonth_def in_futureMonth_def)
    with T show ?thesis
      unfolding step by (simp add: groupStep_cases groupedSpec_def bucketRows_def)
  next
    case C
    then have "\<not> in_futureMonth e b" by (simp add: in_futureMonth_def)
    with C show ?thesis
      unfolding step by (simp add: groupStep_cases groupedSpec_def bucketRows_def)
  next
    case F
    let ?ks = "first_occ (map (monthKeyOf e) (filter (in_futureMonth e) bs))"
    have empty: "bucketRows e q bs (monthKeyOf e b) = []" if "monthKeyOf e b \<notin> set ?ks"
    proof -
      from that have "\<forall>x \<in> set bs. \<not> (in_futureMonth e x \<and> monthKeyOf e x = monthKeyOf e b)"
        by (simp add: image_iff) metis
      then show ?thesis by (simp add: bucketRows_def filter_empty_conv)
    qed
    have push: "bucket_push (monthKeyOf e b) (rowOf e q b) (map (\<lambda>k. (k, bucketRows e q bs k)) ?ks)
        = map (\<lambda>k. (k, bucketRows e q (bs @ [b]) k))
            (first_occ (map (monthKeyOf e) (filter (in_futureMonth e) (bs @ [b]))))"
      using F empty
      by (subst bucket_push_keyed [where f = "bucketRows e q bs"])
         (auto simp: first_occ_snoc bucketRows_def)
    from F show ?thesis
      unfolding step by (simp add: groupStep_cases groupedSpec_def push)
  next
    case N
    then show ?thesis
      unfolding step by (simp add: groupStep_cases groupedSpec_def bucketRows_def)
  qed
qed

lemma groupedBookings_Inr:
  "keptBookings e st (bookings q) = Inr kept
   \<Longrightarrow> groupedBookings e st (Some q) = Inr (groupedSpec e q kept)"
  by (simp add: groupedBookings_def foldl_groupStep)

lemma groupedBookings_Some_cases:
  "groupedBookings e st (Some q) = Inr g
   \<longleftrightarrow> (\<exists>kept. keptBookings e st (bookings q) = Inr kept \<and> g = groupedSpec e q kept)"
  by (auto simp: groupedBookings_def foldl_groupStep split: sum.splits)

lemma finalData_Some_cases:
  "finalData e st (Some q) = Inr rows
   \<longleftrightarrow> (\<exists>kept. keptBookings e st (bookings q) = Inr kept
         \<and> rows = (if st \<noteq> upcoming then flatData (groupedSpec e q kept)
                    else mergedData e (groupedSpec e q kept)))"
  by (cases "keptBookings e st (bookings q)")
     (auto simp: finalData_def groupedBookings_def foldl_groupStep)

text \<open>
  The keys that \<^verbatim>\<open>Object.keys\<close> yields are keys of \<open>monthBuckets\<close>: the \<open>None\<close> branch
  of \<open>monthSection\<close> is never taken in \<open>mergedData\<close>.
\<close>

lemma sorted_keys_present:
  "k \<in> set (sort (map fst (monthBuckets g))) \<Longrightarrow> map_of (monthBuckets g) k \<noteq> None"
  by (simp add: map_of_eq_None_iff)

section \<open>Deduplication of recurring bookings\<close>

lemma recurring_key_Some: "recurring_key b = Some r \<longleftrightarrow> recurringEventId b = Some r \<and> r \<noteq> []"
  by (auto simp: recurring_key_def split: option.splits)

lemma recurring_key_None:
  "recurring_key b = None \<longleftrightarrow> recurringEventId b = None \<or> recurringEventId b = Some []"
  by (auto simp: recurring_key_def split: option.splits)

lemma filterBookings_no_dedup: "\<not> dedups st \<Longrightarrow> filterBookings e st s b = Inr (True, s)"
  by (simp add: filterBookings_def dedups_def)

lemma filterBookings_no_key: "recurring_key b = None \<Longrightarrow> filterBookings e st s b = Inr (True, s)"
  by (simp add: filterBookings_def)

lemma filter_stateful_no_dedup:
  "\<not> dedups st \<Longrightarrow> filter_stateful (filterBookings e st) s bs = Inr bs"
  by (induction bs arbitrary: s) (simp_all add: filterBookings_no_dedup)

text \<open>
  One step of the filter under a deduplicating status, for a booking with a recurring id:
  a series seen before is dropped, a series not seen before is kept or throws, and after
  the step the series is seen.
\<close>

lemma filterBookings_seen:
  assumes "dedups st" "recurring_key b = Some r" "shown_inv s" "seen s r"
  shows "\<exists>s'. filterBookings e st s b = Inr (False, s') \<and> shown_inv s'
          \<and> (\<forall>r'. seen s' r' = seen s r')"
proof (cases "own s r")
  case (Some l)
  with assms(3) have "l \<noteq> []" by (simp add: shown_inv_def)
  moreover from Some assms(3) have "r \<noteq> ''__proto__''" by (auto simp: shown_inv_def)
  ultimately show ?thesis
    using assms Some
    by (auto simp: filterBookings_def dedups_def lookupShown_def lengthPositive_def
        shown_inv_def seen_def)
next
  case None
  with assms(4) obtain a where a: "r = ''__proto__''" "protoArray s = Some a"
    by (auto simp: seen_def)
  with assms(3) have "a \<noteq> []" by (auto simp: shown_inv_def)
  with a None assms show ?thesis
    by (auto simp: filterBookings_def dedups_def lookupShown_def lengthPositive_def
        shown_inv_def seen_def)
qed

lemma filterBookings_unseen:
  assumes "dedups st" "recurring_key b = Some r" "shown_inv s" "\<not> seen s r"
    and "filterBookings e st s b = Inr (keep, s')"
  shows "keep \<and> shown_inv s' \<and> (\<forall>r'. seen s' r' = (seen s r' \<or> r' = r))"
proof -
  from assms(4) have o: "own s r = None" and p: "r = ''__proto__'' \<longrightarrow> protoArray s = None"
    by (auto simp: seen_def)
  have v: "\<And>l. lookupShown e s r \<noteq> OwnArray l" "\<And>a. lookupShown e s r \<noteq> ProtoArray a"
    using o p by (auto simp: lookupShown_def inherited_def split: option.splits)
  from assms(5) assms(1,2) v have np: "\<not> lengthPositive (lookupShown e s r)"
    by (cases "lookupShown e s r") (auto simp: filterBookings_def dedups_def)
  with assms(5) assms(1,2) have k: "keep" "s' = assignShown s r [b]"
    by (auto simp: filterBookings_def dedups_def)
  from k(2) assms(3) have "shown_inv s'"
    by (auto simp: assignShown_def shown_inv_def)
  moreover from k(2) have "\<forall>r'. seen s' r' = (seen s r' \<or> r' = r)"
    by (auto simp: assignShown_def seen_def)
  ultimately show ?thesis using k(1) by simp
qed

lemma filter_stateful_series:
  assumes "dedups st" and "r \<noteq> []"
  shows "shown_inv s \<Longrightarrow> filter_stateful (filterBookings e st) s bs = Inr kept
         \<Longrightarrow> filter (\<lambda>b. recurringEventId b = Some r) kept
             = (if seen s r then [] else take 1 (filter (\<lambda>b. recurringEventId b = Some r) bs))"
proof (induction bs arbitrary: s kept)
  case Nil
  then show ?case by simp
next
  case (Cons b bs)
  show ?case
  proof (cases "recurring_key b")
    case None
    with assms(2) have nb: "recurringEventId b \<noteq> Some r"
      by (auto simp: recurring_key_None)
    from None Cons.prems(2) obtain ys where
      ys: "filter_stateful (filterBookings e st) s bs = Inr ys" "kept = b # ys"
      by (auto simp: filterBookings_no_key split: sum.splits)
    from Cons.IH [OF Cons.prems(1) ys(1)] nb ys(2) show ?thesis by simp
  next
    case (Some r')
    then have rb: "recurringEventId b = Some r'" "r' \<noteq> []"
      by (simp_all add: recurring_key_Some)
    from Cons.prems(2) obtain keep s' ys where
      step: "filterBookings e st s b = Inr (keep, s')"
      and ys: "filter_stateful (filterBookings e st) s' bs = Inr ys"
      and kept: "kept = (if keep then b # ys else ys)"
      by (auto split: sum.splits)
    show ?thesis
    proof (cases "seen s r'")
      case True
      from filterBookings_seen [OF assms(1) Some Cons.prems(1) True, of e] step
      have f: "\<not> keep" "shown_inv s'" "\<And>x. seen s' x = seen s x"
        by auto
      from Cons.IH [OF f(2) ys] f(1,3) kept rb True show ?thesis
        by (cases "r' = r") simp_all
    next
      case False
      from filterBookings_unseen [OF assms(1) Some Cons.prems(1) False step]
      have f: "keep" "shown_inv s'" "\<And>x. seen s' x = (seen s x \<or> x = r')"
        by auto
      from Cons.IH [OF f(2) ys] f(1,3) kept rb False show ?thesis
        by (cases "r' = r") simp_all
    qed
  qed
qed

lemma filter_stateful_no_key:
  "filter_stateful (filterBookings e st) s bs = Inr kept
   \<Longrightarrow> filter (\<lambda>b. recurring_key b = None) kept = filter (\<lambda>b. recurring_key b = None) bs"
proof (induction bs arbitrary: s kept)
  case Nil
  then show ?case by simp
next
  case (Cons b bs)
  from Cons.prems obtain keep s' ys where
    step: "filterBookings e st s b = Inr (keep, s')"
    and ys: "filter_stateful (filterBookings e st) s' bs = Inr ys"
    and kept: "kept = (if keep then b # ys else ys)"
    by (auto split: sum.splits)
  show ?case
  proof (cases "recurring_key b")
    case None
    with step have "keep" by (simp add: filterBookings_no_key)
    with Cons.IH [OF ys] kept None show ?thesis by simp
  next
    case (Some r')
    with Cons.IH [OF ys] kept show ?thesis by simp
  qed
qed

text \<open>
  The filter returns when no recurring id names a member of \<^verbatim>\<open>Object.prototype\<close>: the
  prototype is never replaced and every lookup finds an own array or nothing.
\<close>

lemma filter_stateful_returns:
  assumes "\<forall>b \<in> set bs. \<not> names_prototype_member e b" and "protoArray s = None"
    and "shown_inv s"
  shows "\<exists>kept. filter_stateful (filterBookings e st) s bs = Inr kept"
  using assms
proof (induction bs arbitrary: s)
  case Nil
  show ?case by simp
next
  case (Cons b bs)
  have "\<exists>keep s'. filterBookings e st s b = Inr (keep, s') \<and> protoArray s' = None \<and> shown_inv s'"
  proof (cases "dedups st")
    case False
    with Cons.prems show ?thesis by (auto simp: filterBookings_no_dedup)
  next
    case True
    show ?thesis
    proof (cases "recurring_key b")
      case None
      with Cons.prems show ?thesis by (auto simp: filterBookings_no_key)
    next
      case (Some r)
      with Cons.prems(1) have r: "r \<noteq> ''__proto__''" "objectPrototype e r = None"
        by (simp_all add: names_prototype_member_def)
      show ?thesis
      proof (cases "own s r")
        case None
        with r Some True Cons.prems(2,3) show ?thesis
          by (auto simp: filterBookings_def dedups_def lookupShown_def inherited_def
              lengthPositive_def assignShown_def shown_inv_def)
      next
        case (Some l)
        with r \<open>recurring_key b = Some r\<close> True Cons.prems(2,3) show ?thesis
          by (auto simp: filterBookings_def dedups_def lookupShown_def lengthPositive_def
              shown_inv_def)
      qed
    qed
  qed
  then obtain keep s' where step: "filterBookings e st s b = Inr (keep, s')"
    and s': "protoArray s' = None" "shown_inv s'"
    by blast
  from Cons.prems(1) have "\<forall>b \<in> set bs. \<not> names_prototype_member e b" by simp
  from Cons.IH [OF this s'] obtain ys where
    "filter_stateful (filterBookings e st) s' bs = Inr ys" by blast
  with step show ?case by simp
qed

lemma shown_inv_empty: "shown_inv \<lparr>own = Map.empty, protoArray = None\<rparr>"
  by (simp add: shown_inv_def)

lemma seen_empty: "\<not> seen \<lparr>own = Map.empty, protoArray = None\<rparr> r"
  by (simp add: seen_def)

lemma keptBookings_no_dedup: "\<not> dedups st \<Longrightarrow> keptBookings e st bs = Inr bs"
  by (simp add: keptBookings_def filter_stateful_no_dedup)

lemma keptBookings_upcoming: "keptBookings e upcoming bs = Inr bs"
  by (simp add: keptBookings_no_dedup dedups_def)

lemma keptBookings_series:
  "dedups st \<Longrightarrow> r \<noteq> [] \<Longrightarrow> keptBookings e st bs = Inr kept
   \<Longrightarrow> filter (\<lambda>b. recurringEventId b = Some r) kept
       = take 1 (filter (\<lambda>b. recurringEventId b = Some r) bs)"
  using filter_stateful_series [of st r "\<lparr>own = Map.empty, protoArray = None\<rparr>" e bs kept]
  by (simp add: keptBookings_def shown_inv_empty seen_empty)

lemma keptBookings_no_key:
  "keptBookings e st bs = Inr kept
   \<Longrightarrow> filter (\<lambda>b. recurring_key b = None) kept = filter (\<lambda>b. recurring_key b = None) bs"
  by (simp add: keptBookings_def filter_stateful_no_key)

lemma keptBookings_returns:
  "\<forall>b \<in> set bs. \<not> names_prototype_member e b \<Longrightarrow> \<exists>kept. keptBookings e st bs = Inr kept"
  unfolding keptBookings_def
  by (rule filter_stateful_returns) (simp_all add: shown_inv_empty)

section \<open>The rows that are emitted\<close>

lemma foldl_monthSection:
  "foldl (monthSection e mb) merged ks
   = merged @ concat (map (\<lambda>k. case map_of mb k of None \<Rightarrow> []
        | Some rows \<Rightarrow> if rows \<noteq> [] then Separator (monthLabel e k) # rows else []) ks)"
  by (induction ks arbitrary: merged) (auto simp: monthSection_def split: option.splits)

lemma sort_distinct_cong:
  fixes xs ys :: "'a::linorder list"
  assumes "distinct xs" "distinct ys" "set xs = set ys"
  shows "sort xs = sort ys"
  using assms by (intro sorted_distinct_set_unique) simp_all

lemma sorted_wrt_less_sort:
  fixes xs :: "'a::linorder list"
  shows "distinct xs \<Longrightarrow> sorted_wrt (<) (sort xs)"
  by (simp add: strict_sorted_iff)

lemma mergedData_groupedSpec:
  "mergedData e (groupedSpec e q kept)
   = section_rows (translate e ''today'') (map (rowOf e q) (filter (in_today e) kept))
     @ section_rows (translate e ''this_month'')
         (map (rowOf e q) (filter (in_currentMonth e) kept))
     @ concat (map (\<lambda>k. Separator (monthLabel e k) # bucketRows e q kept k)
                (futureKeys e kept))"
proof -
  let ?ks = "first_occ (map (monthKeyOf e) (filter (in_futureMonth e) kept))"
  let ?mb = "map (\<lambda>k. (k, bucketRows e q kept k)) ?ks"
  have keys: "sort ?ks = futureKeys e kept"
    unfolding futureKeys_def by (rule sort_distinct_cong) simp_all
  have sec: "(case map_of ?mb k of None \<Rightarrow> []
        | Some rows \<Rightarrow> if rows \<noteq> [] then Separator (monthLabel e k) # rows else [])
      = Separator (monthLabel e k) # bucketRows e q kept k"
    if "k \<in> set (futureKeys e kept)" for k
  proof -
    from that have "k \<in> set ?ks" by (simp add: futureKeys_def)
    moreover from that obtain b where "b \<in> set kept" "in_futureMonth e b" "monthKeyOf e b = k"
      by (auto simp: futureKeys_def)
    then have "bucketRows e q kept k \<noteq> []"
      by (auto simp: bucketRows_def filter_empty_conv)
    ultimately show ?thesis by (simp add: map_of_keyed)
  qed
  have "foldl (monthSection e ?mb) merged (futureKeys e kept)
      = merged @ concat (map (\<lambda>k. Separator (monthLabel e k) # bucketRows e q kept k)
                    (futureKeys e kept))" for merged
    unfolding foldl_monthSection using sec by (simp cong: map_cong)
  then show ?thesis
    by (simp add: mergedData_def groupedSpec_def keys section_rows_def Let_def comp_def)
qed

lemma flatData_groupedSpec:
  "flatData (groupedSpec e q kept)
   = map (rowOf e q) (filter (in_currentMonth e) kept)
     @ concat (map (bucketRows e q kept)
                (first_occ (map (monthKeyOf e) (filter (in_futureMonth e) kept))))"
  by (simp add: groupedSpec_def flatData_def comp_def)

lemma mset_filter_disjoint:
  "(\<And>x. \<not> (P x \<and> Q x)) \<Longrightarrow> mset (filter P xs) + mset (filter Q xs) = mset (filter (\<lambda>x. P x \<or> Q x) xs)"
  by (induction xs) auto

lemma mset_concat_by_key:
  "distinct ks \<Longrightarrow>
   mset (concat (map (\<lambda>k. filter (\<lambda>x. P x \<and> kf x = k) xs) ks))
   = mset (filter (\<lambda>x. P x \<and> kf x \<in> set ks) xs)"
proof (induction ks)
  case Nil
  show ?case by simp
next
  case (Cons k ks)
  have "mset (filter (\<lambda>x. P x \<and> kf x = k) xs) + mset (filter (\<lambda>x. P x \<and> kf x \<in> set ks) xs)
      = mset (filter (\<lambda>x. (P x \<and> kf x = k) \<or> (P x \<and> kf x \<in> set ks)) xs)"
    using Cons.prems by (intro mset_filter_disjoint) auto
  moreover have "(\<lambda>x. (P x \<and> kf x = k) \<or> (P x \<and> kf x \<in> set ks)) = (\<lambda>x. P x \<and> kf x \<in> set (k # ks))"
    by auto
  ultimately show ?case using Cons by simp
qed

lemma mset_bucketRows:
  "mset (concat (map (bucketRows e q bs) (first_occ (map (monthKeyOf e) (filter (in_futureMonth e) bs)))))
   = mset (map (rowOf e q) (filter (in_futureMonth e) bs))"
proof -
  let ?ks = "first_occ (map (monthKeyOf e) (filter (in_futureMonth e) bs))"
  let ?parts = "concat (map (\<lambda>k. filter (\<lambda>b. in_futureMonth e b \<and> monthKeyOf e b = k) bs) ?ks)"
  have eq1: "concat (map (bucketRows e q bs) ?ks) = map (rowOf e q) ?parts"
    unfolding bucketRows_def [abs_def] by (simp add: map_concat comp_def)
  have eq2: "mset ?parts = mset (filter (\<lambda>b. in_futureMonth e b \<and> monthKeyOf e b \<in> set ?ks) bs)"
    by (rule mset_concat_by_key) simp
  have eq3: "filter (\<lambda>b. in_futureMonth e b \<and> monthKeyOf e b \<in> set ?ks) bs = filter (in_futureMonth e) bs"
    by (rule filter_cong) auto
  have "mset (concat (map (bucketRows e q bs) ?ks)) = image_mset (rowOf e q) (mset ?parts)"
    by (simp only: eq1 mset_map)
  also have "\<dots> = image_mset (rowOf e q) (mset (filter (in_futureMonth e) bs))"
    by (simp only: eq2 eq3)
  finally show ?thesis by (simp only: mset_map)
qed

lemma mset_flatData:
  "mset (flatData (groupedSpec e q kept))
   = mset (map (rowOf e q) (filter (\<lambda>b. in_currentMonth e b \<or> in_futureMonth e b) kept))"
proof -
  have "mset (filter (in_currentMonth e) kept) + mset (filter (in_futureMonth e) kept)
      = mset (filter (\<lambda>b. in_currentMonth e b \<or> in_futureMonth e b) kept)"
    by (rule mset_filter_disjoint) (simp add: in_futureMonth_def)
  then have "mset (map (rowOf e q) (filter (in_currentMonth e) kept))
        + mset (map (rowOf e q) (filter (in_futureMonth e) kept))
      = mset (map (rowOf e q) (filter (\<lambda>b. in_currentMonth e b \<or> in_futureMonth e b) kept))"
    by (metis image_mset_union mset_map)
  then show ?thesis
    by (simp add: flatData_groupedSpec mset_bucketRows)
qed

lemma rowOf_eq_iff [simp]: "rowOf e q b = rowOf e q b' \<longleftrightarrow> b = b'"
  by (auto simp: rowOf_def)

lemma row_in_today:
  "rowOf e q b \<in> set (today (groupedSpec e q kept)) \<longleftrightarrow> b \<in> set kept \<and> in_today e b"
  by (auto simp: groupedSpec_def)

lemma row_in_currentMonth:
  "rowOf e q b \<in> set (currentMonth (groupedSpec e q kept))
   \<longleftrightarrow> b \<in> set kept \<and> in_currentMonth e b"
  by (auto simp: groupedSpec_def)

lemma bucket_groupedSpec: "bucket (groupedSpec e q kept) k = bucketRows e q kept k"
proof (cases "k \<in> monthKeyOf e ` {b \<in> set kept. in_futureMonth e b}")
  case True
  then show ?thesis
    by (simp add: bucket_def groupedSpec_def map_of_keyed)
next
  case False
  then have "bucketRows e q kept k = []"
    by (auto simp: bucketRows_def filter_empty_conv)
  with False show ?thesis
    by (simp add: bucket_def groupedSpec_def map_of_keyed)
qed

lemma row_in_bucket:
  "rowOf e q b \<in> set (bucket (groupedSpec e q kept) k)
   \<longleftrightarrow> b \<in> set kept \<and> in_futureMonth e b \<and> monthKeyOf e b = k"
  by (auto simp: bucket_groupedSpec bucketRows_def)

lemma row_in_buckets:
  "rowOf e q b \<in> set (concat (map snd (monthBuckets (groupedSpec e q kept))))
   \<longleftrightarrow> b \<in> set kept \<and> in_futureMonth e b"
  by (auto simp: groupedSpec_def bucketRows_def comp_def)

lemma row_series_rowOf [simp]: "row_series (rowOf e q b) = recurringEventId b"
  by (simp add: row_series_def rowOf_def)

text \<open>A list with the elements of a list of at most one element is that list.\<close>

lemma mset_eq_short:
  assumes "mset xs = mset ys" "length ys \<le> 1"
  shows "xs = ys"
proof (cases ys)
  case Nil
  with assms show ?thesis by simp
next
  case (Cons y zs)
  with assms(2) have "ys = [y]" by simp
  with assms(1) show ?thesis by simp
qed

text \<open>
  The rows of one series in the flat list: the row of the series' only kept booking, if
  that booking is in the current-month bucket or in a future-month bucket.
\<close>

lemma series_rows_flat:
  assumes "filter (\<lambda>b. recurringEventId b = Some r) kept = take 1 first"
  shows "filter (\<lambda>row. row_series row = Some r) (flatData (groupedSpec e q kept))
       = map (rowOf e q) (filter (\<lambda>b. in_currentMonth e b \<or> in_futureMonth e b) (take 1 first))"
proof (rule mset_eq_short)
  let ?shown = "\<lambda>b. in_currentMonth e b \<or> in_futureMonth e b"
  have "mset (filter (\<lambda>row. row_series row = Some r) (flatData (groupedSpec e q kept)))
      = filter_mset (\<lambda>row. row_series row = Some r) (mset (map (rowOf e q) (filter ?shown kept)))"
    by (simp only: mset_filter mset_flatData)
  also have "\<dots> = mset (filter (\<lambda>row. row_series row = Some r) (map (rowOf e q) (filter ?shown kept)))"
    by (simp only: mset_filter)
  also have "filter (\<lambda>row. row_series row = Some r) (map (rowOf e q) (filter ?shown kept))
      = map (rowOf e q) (filter ?shown (filter (\<lambda>b. recurringEventId b = Some r) kept))"
    by (simp add: filter_map comp_def conj_commute)
  finally show "mset (filter (\<lambda>row. row_series row = Some r) (flatData (groupedSpec e q kept)))
      = mset (map (rowOf e q) (filter ?shown (take 1 first)))"
    by (simp only: assms)
  show "length (map (rowOf e q) (filter ?shown (take 1 first))) \<le> 1"
    by (simp add: le_trans [OF length_filter_le])
qed

section \<open>Evaluation on the concrete bookings\<close>

lemma utc_tz_now:
  "utc_tz 1749988800000 = \<lparr>valueOf = 1749988800000, year = 2025, monthOfYear = 6, dayOfMonth = 15\<rparr>"
  by code_simp

lemma utc_tz_today:
  "utc_tz 1749992400000 = \<lparr>valueOf = 1749992400000, year = 2025, monthOfYear = 6, dayOfMonth = 15\<rparr>"
  by code_simp

lemma utc_tz_week:
  "utc_tz 1750582800000 = \<lparr>valueOf = 1750582800000, year = 2025, monthOfYear = 6, dayOfMonth = 22\<rparr>"
  by code_simp

lemma utc_tz_july:
  "utc_tz 1752138000000 = \<lparr>valueOf = 1752138000000, year = 2025, monthOfYear = 7, dayOfMonth = 10\<rparr>"
  by code_simp

lemma utc_tz_sept:
  "utc_tz 1756890000000 = \<lparr>valueOf = 1756890000000, year = 2025, monthOfYear = 9, dayOfMonth = 3\<rparr>"
  by code_simp

lemma utc_tz_may:
  "utc_tz 1746867600000 = \<lparr>valueOf = 1746867600000, year = 2025, monthOfYear = 5, dayOfMonth = 10\<rparr>"
  by code_simp

lemma utc_month_bounds:
  "valueOf (utc_startOfMonth \<lparr>valueOf = 1749988800000, year = 2025, monthOfYear = 6, dayOfMonth = 15\<rparr>)
     = 1748736000000"
  "valueOf (utc_endOfMonth \<lparr>valueOf = 1749988800000, year = 2025, monthOfYear = 6, dayOfMonth = 15\<rparr>)
     = 1751327999999"
  by code_simp+

lemma show_nat_values:
  "show_nat 2025 = ''2025''" "show_nat 3 = ''3''" "show_nat 5 = ''5''" "show_nat 6 = ''6''"
  "show_nat 7 = ''7''" "show_nat 9 = ''9''" "show_nat 10 = ''10''" "show_nat 15 = ''15''"
  "show_nat 22 = ''22''"
  by code_simp+

lemma format_values:
  "format_YYYY_MM_DD \<lparr>valueOf = v, year = 2025, monthOfYear = 6, dayOfMonth = 15\<rparr> = ''2025-06-15''"
  "format_YYYY_MM_DD \<lparr>valueOf = v, year = 2025, monthOfYear = 6, dayOfMonth = 22\<rparr> = ''2025-06-22''"
  "format_YYYY_MM_DD \<lparr>valueOf = v, year = 2025, monthOfYear = 7, dayOfMonth = 10\<rparr> = ''2025-07-10''"
  "format_YYYY_MM_DD \<lparr>valueOf = v, year = 2025, monthOfYear = 9, dayOfMonth = 3\<rparr> = ''2025-09-03''"
  "format_YYYY_MM_DD \<lparr>valueOf = v, year = 2025, monthOfYear = 5, dayOfMonth = 10\<rparr> = ''2025-05-10''"
  "format_YYYY_MM \<lparr>valueOf = v, year = 2025, monthOfYear = 7, dayOfMonth = 10\<rparr> = ''2025-07''"
  "format_YYYY_MM \<lparr>valueOf = v, year = 2025, monthOfYear = 9, dayOfMonth = 3\<rparr> = ''2025-09''"
  by (simp_all add: format_YYYY_MM_DD_def format_YYYY_MM_def padStart_def show_nat_values)

lemma june15_fields:
  "tz june15 = utc_tz" "nowMs june15 = 1749988800000" "startOfMonth june15 = utc_startOfMonth"
  "endOfMonth june15 = utc_endOfMonth" "translate june15 = en_translate"
  "monthLabel june15 = en_monthLabel" "objectPrototype june15 = es_objectPrototype"
  "arrayPrototype june15 = es_arrayPrototype"
  by (simp_all add: june15_def utc_env_def)

lemma june15_clock:
  "todayStr june15 = ''2025-06-15''"
  "valueOf (currentMonthStart june15) = 1748736000000"
  "valueOf (currentMonthEnd june15) = 1751327999999"
  by (simp_all add: todayStr_def currentMonthStart_def currentMonthEnd_def june15_fields
      utc_tz_now utc_month_bounds format_values)

lemmas class_defs =
  in_today_def in_currentMonth_def in_futureMonth_def monthKeyOf_def bookingDate_def
  isAfter_def isBefore_def june15_fields june15_clock format_values

lemma class_today:
  "startTime b = 1749992400000 \<Longrightarrow>
     in_today june15 b \<and> \<not> in_currentMonth june15 b \<and> \<not> in_futureMonth june15 b"
  by (simp add: class_defs utc_tz_today)

lemma class_week:
  "startTime b = 1750582800000 \<Longrightarrow>
     \<not> in_today june15 b \<and> in_currentMonth june15 b \<and> \<not> in_futureMonth june15 b"
  by (simp add: class_defs utc_tz_week)

lemma class_july:
  "startTime b = 1752138000000 \<Longrightarrow>
     \<not> in_today june15 b \<and> \<not> in_currentMonth june15 b \<and> in_futureMonth june15 b
     \<and> monthKeyOf june15 b = ''2025-07''"
  by (simp add: class_defs utc_tz_july)

lemma class_sept:
  "startTime b = 1756890000000 \<Longrightarrow>
     \<not> in_today june15 b \<and> \<not> in_currentMonth june15 b \<and> in_futureMonth june15 b
     \<and> monthKeyOf june15 b = ''2025-09''"
  by (simp add: class_defs utc_tz_sept)

lemma class_may:
  "startTime b = 1746867600000 \<Longrightarrow>
     \<not> in_today june15 b \<and> \<not> in_currentMonth june15 b \<and> \<not> in_futureMonth june15 b
     \<and> isBefore (bookingDate june15 b) (currentMonthStart june15)"
  by (simp add: class_defs utc_tz_may)

lemma sample_start:
  "startTime b_today = 1749992400000" "startTime b_week = 1750582800000"
  "startTime b_july = 1752138000000" "startTime b_sept = 1756890000000"
  "startTime b_may = 1746867600000" "startTime s1 = 1749992400000"
  "startTime s2 = 1750582800000" "startTime s3 = 1752138000000"
  by (simp_all add: b_today_def b_week_def b_july_def b_sept_def b_may_def s1_def s2_def s3_def)

lemmas sample_class =
  class_today [OF sample_start(1)] class_week [OF sample_start(2)] class_july [OF sample_start(3)]
  class_sept [OF sample_start(4)] class_may [OF sample_start(5)] class_today [OF sample_start(6)]
  class_week [OF sample_start(7)] class_july [OF sample_start(8)]

lemma sample_rows:
  "rowOf june15 q_four b_today = Data b_today True None"
  "rowOf june15 q_four b_week = Data b_week False None"
  "rowOf june15 q_four b_july = Data b_july False None"
  "rowOf june15 q_four b_sept = Data b_sept False None"
  using sample_class by (simp_all add: rowOf_def q_four_def flip: in_today_def)

lemma sample_labels:
  "en_translate ''today'' = ''Today''" "en_translate ''this_month'' = ''This Month''"
  "en_monthLabel ''2025-07'' = ''July 2025''" "en_monthLabel ''2025-09'' = ''September 2025''"
  by (simp_all add: en_translate_def en_monthLabel_def en_monthName_def)

lemma sample_keys:
  "recurring_key b_today = None" "recurring_key b_week = None" "recurring_key b_july = None"
  "recurring_key b_sept = None" "recurring_key b_may = None"
  "recurring_key s1 = Some ''weekly''" "recurring_key s2 = Some ''weekly''"
  "recurring_key s3 = Some ''weekly''" "recurring_key c1 = Some ''constructor''"
  by (simp_all add: recurring_key_def b_today_def b_week_def b_july_def b_sept_def b_may_def
      s1_def s2_def s3_def c1_def)

lemma sample_members:
  "es_objectPrototype ''weekly'' = None" "es_objectPrototype ''constructor'' = Some 1"
  by (simp_all add: es_objectPrototype_def)

lemmas filter_eval =
  keptBookings_def filterBookings_def lookupShown_def inherited_def lengthPositive_def
  assignShown_def sample_keys sample_members june15_fields

lemma sample_kept:
  "keptBookings june15 cancelled [b_sept, b_today, b_week, b_july]
     = Inr [b_sept, b_today, b_week, b_july]"
  "keptBookings june15 cancelled [s1, s2, s3] = Inr [s1]"
  "keptBookings june15 cancelled [s2, b_today, s3] = Inr [s2, b_today]"
  "keptBookings june15 past [b_may] = Inr [b_may]"
  by (simp_all add: filter_eval)

text \<open>
  A recurring id that names a function of \<^verbatim>\<open>Object.prototype\<close> with parameters makes the
  filter throw at the first booking of the series.
\<close>

lemma keptBookings_constructor: "keptBookings june15 cancelled [c1, b_week] = Inl TypeError"
  by (simp add: filter_eval)

section \<open>The claims about the booking list\<close>

text \<open>
  C1. For status \<^verbatim>\<open>upcoming\<close> the rows are, in this order: a separator labelled
  \<^verbatim>\<open>t("today")\<close> and the rows of today's bookings, if there are any; a separator labelled
  \<^verbatim>\<open>t("this_month")\<close> and the rows of the rest of the current month, if there are any;
  and, for each future month that has a booking, in strictly ascending order of the
  year-month key, a separator with that month's label and the rows of that month.
  Nothing else is emitted, and without query data the list is empty. (By
  \<open>monthKeyOf_chronological\<close> the order of the keys is the order of the months in time,
  for years of at most four digits.)
\<close>

theorem finalData_upcoming:
  "finalData e upcoming (Some q)
     = Inr (section_rows (translate e ''today'')
              (map (rowOf e q) (filter (in_today e) (bookings q)))
            @ section_rows (translate e ''this_month'')
                (map (rowOf e q) (filter (in_currentMonth e) (bookings q)))
            @ concat (map (\<lambda>k. Separator (monthLabel e k) # bucketRows e q (bookings q) k)
                       (futureKeys e (bookings q))))
   \<and> sorted_wrt (<) (futureKeys e (bookings q))
   \<and> set (futureKeys e (bookings q)) = monthKeyOf e ` {b \<in> set (bookings q). in_futureMonth e b}
   \<and> (\<forall>k \<in> set (futureKeys e (bookings q)). bucketRows e q (bookings q) k \<noteq> [])
   \<and> finalData e upcoming None = Inr []"
proof (intro conjI)
  show "finalData e upcoming (Some q)
     = Inr (section_rows (translate e ''today'')
              (map (rowOf e q) (filter (in_today e) (bookings q)))
            @ section_rows (translate e ''this_month'')
                (map (rowOf e q) (filter (in_currentMonth e) (bookings q)))
            @ concat (map (\<lambda>k. Separator (monthLabel e k) # bucketRows e q (bookings q) k)
                       (futureKeys e (bookings q))))"
    by (simp add: finalData_def groupedBookings_def keptBookings_upcoming foldl_groupStep
        mergedData_groupedSpec)
  show "sorted_wrt (<) (futureKeys e (bookings q))"
    unfolding futureKeys_def by (rule sorted_wrt_less_sort) simp
  show "set (futureKeys e (bookings q)) = monthKeyOf e ` {b \<in> set (bookings q). in_futureMonth e b}"
    by (simp add: futureKeys_def)
  show "\<forall>k \<in> set (futureKeys e (bookings q)). bucketRows e q (bookings q) k \<noteq> []"
    by (auto simp: futureKeys_def bucketRows_def filter_empty_conv)
  show "finalData e upcoming None = Inr []"
    by (simp add: finalData_def groupedBookings_def mergedData_def monthSection_def)
qed

theorem finalData_upcoming_witness:
  "finalData june15 upcoming (Some q_four)
   = Inr [Separator ''Today'', Data b_today True None,
          Separator ''This Month'', Data b_week False None,
          Separator ''July 2025'', Data b_july False None,
          Separator ''September 2025'', Data b_sept False None]"
proof -
  have bs: "bookings q_four = [b_sept, b_today, b_week, b_july]"
    by (simp add: q_four_def)
  have keys: "futureKeys june15 [b_sept, b_today, b_week, b_july] = [''2025-07'', ''2025-09'']"
    using sample_class by (simp add: futureKeys_def)
  have rows:
    "bucketRows june15 q_four [b_sept, b_today, b_week, b_july] ''2025-07'' = [Data b_july False None]"
    "bucketRows june15 q_four [b_sept, b_today, b_week, b_july] ''2025-09'' = [Data b_sept False None]"
    using sample_class sample_rows by (simp_all add: bucketRows_def)
  from finalData_upcoming [of june15 q_four] show ?thesis
    using sample_class sample_rows
    by (simp add: bs keys rows section_rows_def june15_fields sample_labels)
qed

text \<open>
  C2, as the code has it. When the dedup step returns, every kept booking is put into at
  most one bucket, by its start in the reference time zone: its row is in no two of the
  today bucket, the current-month bucket and the future-month buckets, and among the
  future-month buckets only in the one of its own year-month key. It is in the today
  bucket when its date is today; otherwise in the current-month bucket when it starts
  strictly between the start and the end of the current month; otherwise in the bucket of
  its year-month key when it starts strictly after the end of the current month. A kept
  booking that is not dated today and starts before the current month (the month starting
  before it ends) is in no bucket.
\<close>

theorem classification_at_most_one:
  assumes "keptBookings e st (bookings q) = Inr kept" and "b \<in> set kept"
  shows
   "\<exists>g. groupedBookings e st (Some q) = Inr g
     \<and> \<not> (rowOf e q b \<in> set (today g) \<and> rowOf e q b \<in> set (currentMonth g))
     \<and> \<not> (rowOf e q b \<in> set (today g)
           \<and> rowOf e q b \<in> set (concat (map snd (monthBuckets g))))
     \<and> \<not> (rowOf e q b \<in> set (currentMonth g)
           \<and> rowOf e q b \<in> set (concat (map snd (monthBuckets g))))
     \<and> (rowOf e q b \<in> set (concat (map snd (monthBuckets g)))
          \<longleftrightarrow> rowOf e q b \<in> set (bucket g (monthKeyOf e b)))
     \<and> (\<forall>k. k \<noteq> monthKeyOf e b \<longrightarrow> rowOf e q b \<notin> set (bucket g k))
     \<and> (in_today e b \<longrightarrow>
          rowOf e q b \<in> set (today g) \<and> rowOf e q b \<notin> set (currentMonth g)
          \<and> rowOf e q b \<notin> set (concat (map snd (monthBuckets g))))
     \<and> (\<not> in_today e b \<and> isAfter (bookingDate e b) (currentMonthStart e)
           \<and> isBefore (bookingDate e b) (currentMonthEnd e) \<longrightarrow>
          rowOf e q b \<notin> set (today g) \<and> rowOf e q b \<in> set (currentMonth g)
          \<and> rowOf e q b \<notin> set (concat (map snd (monthBuckets g))))
     \<and> (\<not> in_today e b \<and> isAfter (bookingDate e b) (currentMonthEnd e) \<longrightarrow>
          rowOf e q b \<notin> set (today g) \<and> rowOf e q b \<notin> set (currentMonth g)
          \<and> rowOf e q b \<in> set (bucket g (monthKeyOf e b)))
     \<and> (\<not> in_today e b \<and> isBefore (bookingDate e b) (currentMonthStart e)
           \<and> isBefore (currentMonthStart e) (currentMonthEnd e) \<longrightarrow>
          rowOf e q b \<notin> set (today g) \<and> rowOf e q b \<notin> set (currentMonth g)
          \<and> rowOf e q b \<notin> set (concat (map snd (monthBuckets g))))"
proof -
  have g: "groupedBookings e st (Some q) = Inr (groupedSpec e q kept)"
    using assms(1) by (rule groupedBookings_Inr)
  show ?thesis
    unfolding g using assms(2)
    by (simp add: row_in_today row_in_currentMonth row_in_bucket row_in_buckets
        in_currentMonth_def in_futureMonth_def isAfter_def isBefore_def del: set_concat)
qed

theorem classification_at_most_one_witness:
  "groupedBookings june15 upcoming (Some q_five)
     = Inr (groupedSpec june15 q_five (bookings q_five))
   \<and> rowOf june15 q_five b_today \<in> set (today (groupedSpec june15 q_five (bookings q_five)))
   \<and> rowOf june15 q_five b_week
       \<in> set (currentMonth (groupedSpec june15 q_five (bookings q_five)))
   \<and> rowOf june15 q_five b_july
       \<in> set (bucket (groupedSpec june15 q_five (bookings q_five)) ''2025-07'')
   \<and> rowOf june15 q_five b_july
       \<notin> set (bucket (groupedSpec june15 q_five (bookings q_five)) ''2025-09'')
   \<and> rowOf june15 q_five b_july
       \<notin> set (currentMonth (groupedSpec june15 q_five (bookings q_five)))
   \<and> rowOf june15 q_five b_may \<notin> set (today (groupedSpec june15 q_five (bookings q_five)))
   \<and> rowOf june15 q_five b_may
       \<notin> set (currentMonth (groupedSpec june15 q_five (bookings q_five)))
   \<and> rowOf june15 q_five b_may
       \<notin> set (concat (map snd (monthBuckets (groupedSpec june15 q_five (bookings q_five)))))"
proof -
  have k: "keptBookings june15 upcoming (bookings q_five) = Inr (bookings q_five)"
    by (rule keptBookings_upcoming)
  have g: "groupedBookings june15 upcoming (Some q_five)
      = Inr (groupedSpec june15 q_five (bookings q_five))"
    using k by (rule groupedBookings_Inr)
  have mem: "b_today \<in> set (bookings q_five)" "b_week \<in> set (bookings q_five)"
    "b_july \<in> set (bookings q_five)" "b_may \<in> set (bookings q_five)"
    by (simp_all add: q_five_def)
  have hyps: "in_today june15 b_today"
    "\<not> in_today june15 b_week \<and> isAfter (bookingDate june15 b_week) (currentMonthStart june15)
       \<and> isBefore (bookingDate june15 b_week) (currentMonthEnd june15)"
    "\<not> in_today june15 b_july \<and> isAfter (bookingDate june15 b_july) (currentMonthEnd june15)"
    "\<not> in_today june15 b_may \<and> isBefore (bookingDate june15 b_may) (currentMonthStart june15)
       \<and> isBefore (currentMonthStart june15) (currentMonthEnd june15)"
    "monthKeyOf june15 b_july = ''2025-07''"
    using sample_class
    by (simp_all add: in_currentMonth_def in_futureMonth_def june15_clock isBefore_def)
  from classification_at_most_one [OF k mem(1)] classification_at_most_one [OF k mem(2)]
       classification_at_most_one [OF k mem(3)] classification_at_most_one [OF k mem(4)]
       hyps
  show ?thesis unfolding g by simp
qed

text \<open>
  C2, as stated, fails: a booking of the month before is kept by the dedup step and is
  in none of the three buckets.
\<close>

theorem classification_counterexample:
  "keptBookings june15 past (bookings q_may) = Inr [b_may]
   \<and> groupedBookings june15 past (Some q_may)
       = Inr \<lparr>today = [], currentMonth = [], monthBuckets = []\<rparr>"
proof -
  have k: "keptBookings june15 past (bookings q_may) = Inr [b_may]"
    by (simp add: q_may_def sample_kept)
  from groupedBookings_Inr [OF k] k sample_class show ?thesis
    by (simp add: groupedSpec_def)
qed

text \<open>
  C3, as the code has it. Under the statuses recurring, unconfirmed and cancelled,
  whenever a row list is emitted: of the bookings with a given non-empty recurring id the
  dedup step keeps exactly the first in input order, and the data rows of that series in
  the list are exactly the row of that first booking if it is in the current-month
  bucket or in a future-month bucket, and none otherwise. Whenever the dedup step returns,
  under any status, every booking whose recurring id is null (or empty) is kept. Under
  a status other than the three every booking is kept. A row list is emitted whenever no
  recurring id names a member of \<^verbatim>\<open>Object.prototype\<close>.
\<close>

theorem recurring_dedup:
  "(dedups st \<and> r \<noteq> [] \<and> finalData e st (Some q) = Inr rows \<longrightarrow>
      (\<exists>kept. keptBookings e st (bookings q) = Inr kept
         \<and> filter (\<lambda>b. recurringEventId b = Some r) kept
           = take 1 (filter (\<lambda>b. recurringEventId b = Some r) (bookings q)))
      \<and> filter (\<lambda>row. row_series row = Some r) rows
        = map (rowOf e q)
            (filter (\<lambda>b. in_currentMonth e b \<or> in_futureMonth e b)
               (take 1 (filter (\<lambda>b. recurringEventId b = Some r) (bookings q)))))
   \<and> (keptBookings e st (bookings q) = Inr kept' \<longrightarrow>
        filter (\<lambda>b. recurring_key b = None) kept'
        = filter (\<lambda>b. recurring_key b = None) (bookings q))
   \<and> (\<not> dedups st \<longrightarrow> keptBookings e st (bookings q) = Inr (bookings q))
   \<and> ((\<forall>b \<in> set (bookings q). \<not> names_prototype_member e b) \<longrightarrow>
        (\<exists>rows'. finalData e st (Some q) = Inr rows'))"
proof (intro conjI impI)
  assume a: "dedups st \<and> r \<noteq> [] \<and> finalData e st (Some q) = Inr rows"
  then have nu: "st \<noteq> upcoming" by (auto simp: dedups_def)
  from a nu obtain kept where kept: "keptBookings e st (bookings q) = Inr kept"
    and rows: "rows = flatData (groupedSpec e q kept)"
    by (auto simp: finalData_Some_cases)
  have first: "filter (\<lambda>b. recurringEventId b = Some r) kept
      = take 1 (filter (\<lambda>b. recurringEventId b = Some r) (bookings q))"
    using a kept by (intro keptBookings_series) simp_all
  from kept first show "\<exists>kept. keptBookings e st (bookings q) = Inr kept
         \<and> filter (\<lambda>b. recurringEventId b = Some r) kept
           = take 1 (filter (\<lambda>b. recurringEventId b = Some r) (bookings q))"
    by blast
  show "filter (\<lambda>row. row_series row = Some r) rows
        = map (rowOf e q)
            (filter (\<lambda>b. in_currentMonth e b \<or> in_futureMonth e b)
               (take 1 (filter (\<lambda>b. recurringEventId b = Some r) (bookings q))))"
    unfolding rows by (rule series_rows_flat [OF first])
next
  assume "keptBookings e st (bookings q) = Inr kept'"
  then show "filter (\<lambda>b. recurring_key b = None) kept'
        = filter (\<lambda>b. recurring_key b = None) (bookings q)"
    by (rule keptBookings_no_key)
next
  assume "\<not> dedups st"
  then show "keptBookings e st (bookings q) = Inr (bookings q)"
    by (rule keptBookings_no_dedup)
next
  assume "\<forall>b \<in> set (bookings q). \<not> names_prototype_member e b"
  then obtain kept where "keptBookings e st (bookings q) = Inr kept"
    using keptBookings_returns by blast
  then show "\<exists>rows'. finalData e st (Some q) = Inr rows'"
    by (simp add: finalData_Some_cases)
qed

lemma finalData_flat:
  "st \<noteq> upcoming \<Longrightarrow> keptBookings e st (bookings q) = Inr kept
   \<Longrightarrow> finalData e st (Some q)
       = Inr (map (rowOf e q) (filter (in_currentMonth e) kept)
              @ concat (map (bucketRows e q kept)
                         (first_occ (map (monthKeyOf e) (filter (in_futureMonth e) kept)))))"
  by (simp add: finalData_Some_cases flatData_groupedSpec)

lemma finalData_throws:
  "keptBookings e st (bookings q) = Inl err \<Longrightarrow> finalData e st (Some q) = Inl err"
  by (simp add: finalData_def groupedBookings_def)

lemma sample_flat:
  "finalData june15 cancelled (Some q_shown) = Inr [Data s2 False None]"
  "finalData june15 cancelled (Some q_series) = Inr []"
  "finalData june15 cancelled (Some q_four)
     = Inr [Data b_week False None, Data b_sept False None, Data b_july False None]"
proof -
  have ne: "cancelled \<noteq> upcoming" by simp
  have k: "keptBookings june15 cancelled (bookings q_shown) = Inr [s2, b_today]"
    "keptBookings june15 cancelled (bookings q_series) = Inr [s1]"
    "keptBookings june15 cancelled (bookings q_four) = Inr [b_sept, b_today, b_week, b_july]"
    by (simp_all add: q_shown_def q_series_def q_four_def sample_kept)
  show "finalData june15 cancelled (Some q_shown) = Inr [Data s2 False None]"
    using finalData_flat [OF ne k(1)] sample_class
    by (simp add: first_occ_def rowOf_def q_shown_def flip: in_today_def)
  show "finalData june15 cancelled (Some q_series) = Inr []"
    using finalData_flat [OF ne k(2)] sample_class by (simp add: first_occ_def)
  show "finalData june15 cancelled (Some q_four)
     = Inr [Data b_week False None, Data b_sept False None, Data b_july False None]"
    using finalData_flat [OF ne k(3)] sample_class sample_rows
    by (simp add: first_occ_def bucketRows_def)
qed

text \<open>With a recurring id \<^verbatim>\<open>"constructor"\<close> no row list is emitted.\<close>

lemma finalData_constructor: "finalData june15 cancelled (Some q_ctor) = Inl TypeError"
  by (rule finalData_throws) (simp add: q_ctor_def keptBookings_constructor)

theorem recurring_dedup_witness:
  "finalData june15 cancelled (Some q_shown) = Inr [Data s2 False None]
   \<and> keptBookings june15 cancelled (bookings q_shown) = Inr [s2, b_today]
   \<and> filter (\<lambda>row. row_series row = Some ''weekly'') [Data s2 False None]
       = [rowOf june15 q_shown s2]
   \<and> keptBookings june15 upcoming (bookings q_shown) = Inr [s2, b_today, s3]
   \<and> (\<exists>rows'. finalData june15 cancelled (Some q_shown) = Inr rows')"
proof -
  have d: "dedups cancelled \<and> ''weekly'' \<noteq> []
           \<and> finalData june15 cancelled (Some q_shown) = Inr [Data s2 False None]"
    "\<not> dedups upcoming"
    by (simp_all add: dedups_def sample_flat)
  have ids: "recurringEventId s2 = Some ''weekly''" "recurringEventId s3 = Some ''weekly''"
    "recurringEventId b_today = None"
    by (simp_all add: s2_def s3_def b_today_def)
  have bs: "bookings q_shown = [s2, b_today, s3]" by (simp add: q_shown_def)
  have np: "\<forall>b \<in> set (bookings q_shown). \<not> names_prototype_member june15 b"
    by (simp add: bs names_prototype_member_def sample_keys june15_fields sample_members)
  from recurring_dedup [of cancelled "''weekly''" june15 q_shown "[Data s2 False None]" "[s2, b_today]"]
       recurring_dedup [of upcoming "''weekly''" june15 q_shown "[]" "[]"] d np
  show ?thesis
    using sample_class by (simp add: bs ids sample_kept)
qed

text \<open>
  C3, as stated, fails: of three cancelled bookings of one series whose first occurrence
  is today, no data row is emitted. The first is the only one kept, it goes to the today
  bucket, and the flat list of a status other than upcoming leaves that bucket out.
\<close>

theorem recurring_dedup_counterexample:
  "keptBookings june15 cancelled (bookings q_series) = Inr [s1]
   \<and> finalData june15 cancelled (Some q_series) = Inr []"
proof -
  have "keptBookings june15 cancelled (bookings q_series) = Inr [s1]"
    by (simp add: q_series_def sample_kept)
  then show ?thesis by (simp add: sample_flat)
qed

text \<open>
  C7. For a status other than \<^verbatim>\<open>upcoming\<close>, a row list that is emitted is the rows of the
  current-month bucket followed by the rows of the future-month buckets (the months in
  the order in which their first booking came), with no separator; no row of a booking
  dated today is among them, so a kept booking of today is absent from the list. A row
  list is emitted whenever no recurring id names a member of \<^verbatim>\<open>Object.prototype\<close>, and,
  with all bookings kept, under every status that does not deduplicate.
\<close>

theorem finalData_not_upcoming:
  assumes "st \<noteq> upcoming"
  shows "(finalData e st (Some q) = Inr rows \<longrightarrow>
          (\<exists>kept g. keptBookings e st (bookings q) = Inr kept
             \<and> groupedBookings e st (Some q) = Inr g
             \<and> rows = currentMonth g @ concat (map snd (monthBuckets g))
             \<and> rows = map (rowOf e q) (filter (in_currentMonth e) kept)
                 @ concat (map (bucketRows e q kept)
                     (first_occ (map (monthKeyOf e) (filter (in_futureMonth e) kept))))
             \<and> (\<forall>b \<in> set kept. in_today e b \<longrightarrow> rowOf e q b \<notin> set rows))
          \<and> (\<forall>r \<in> set rows. \<not> isSeparatorRow r \<and> \<not> in_today e (row_booking r)))
     \<and> ((\<forall>b \<in> set (bookings q). \<not> names_prototype_member e b) \<longrightarrow>
          (\<exists>rows'. finalData e st (Some q) = Inr rows'))
     \<and> (\<not> dedups st \<longrightarrow>
          keptBookings e st (bookings q) = Inr (bookings q)
          \<and> (\<exists>rows'. finalData e st (Some q) = Inr rows'))
     \<and> finalData e st None = Inr []"
proof (intro conjI impI)
  assume "finalData e st (Some q) = Inr rows"
  with assms obtain kept where kept: "keptBookings e st (bookings q) = Inr kept"
    and rows: "rows = flatData (groupedSpec e q kept)"
    by (auto simp: finalData_Some_cases)
  have g: "groupedBookings e st (Some q) = Inr (groupedSpec e q kept)"
    using kept by (rule groupedBookings_Inr)
  have flat: "rows = map (rowOf e q) (filter (in_currentMonth e) kept)
                 @ concat (map (bucketRows e q kept)
                     (first_occ (map (monthKeyOf e) (filter (in_futureMonth e) kept))))"
    unfolding rows by (rule flatData_groupedSpec)
  have absent: "\<forall>b \<in> set kept. in_today e b \<longrightarrow> rowOf e q b \<notin> set rows"
    unfolding flat by (auto simp: bucketRows_def in_currentMonth_def in_futureMonth_def)
  from kept g rows flat absent
  show "\<exists>kept g. keptBookings e st (bookings q) = Inr kept
             \<and> groupedBookings e st (Some q) = Inr g
             \<and> rows = currentMonth g @ concat (map snd (monthBuckets g))
             \<and> rows = map (rowOf e q) (filter (in_currentMonth e) kept)
                 @ concat (map (bucketRows e q kept)
                     (first_occ (map (monthKeyOf e) (filter (in_futureMonth e) kept))))
             \<and> (\<forall>b \<in> set kept. in_today e b \<longrightarrow> rowOf e q b \<notin> set rows)"
    by (auto simp: flatData_def)
  show "\<forall>r \<in> set rows. \<not> isSeparatorRow r \<and> \<not> in_today e (row_booking r)"
    unfolding flat
    by (auto simp: bucketRows_def rowOf_def in_currentMonth_def in_futureMonth_def
        isSeparatorRow_def)
next
  assume "\<forall>b \<in> set (bookings q). \<not> names_prototype_member e b"
  then obtain kept where "keptBookings e st (bookings q) = Inr kept"
    using keptBookings_returns by blast
  then show "\<exists>rows'. finalData e st (Some q) = Inr rows'"
    by (simp add: finalData_Some_cases)
next
  assume nd: "\<not> dedups st"
  then show "keptBookings e st (bookings q) = Inr (bookings q)"
    by (rule keptBookings_no_dedup)
  from nd show "\<exists>rows'. finalData e st (Some q) = Inr rows'"
    by (simp add: finalData_Some_cases keptBookings_no_dedup)
next
  show "finalData e st None = Inr []"
    using assms by (simp add: finalData_def flatData_def groupedBookings_def)
qed

theorem finalData_not_upcoming_witness:
  "finalData june15 cancelled (Some q_four)
     = Inr [Data b_week False None, Data b_sept False None, Data b_july False None]
   \<and> keptBookings june15 cancelled (bookings q_four) = Inr [b_sept, b_today, b_week, b_july]
   \<and> rowOf june15 q_four b_today
       \<notin> set [Data b_week False None, Data b_sept False None, Data b_july False None]
   \<and> keptBookings june15 past (bookings q_four) = Inr (bookings q_four)"
proof -
  have ne: "cancelled \<noteq> upcoming" "past \<noteq> upcoming" by simp_all
  have ev: "finalData june15 cancelled (Some q_four)
     = Inr [Data b_week False None, Data b_sept False None, Data b_july False None]"
    by (rule sample_flat)
  have bs: "bookings q_four = [b_sept, b_today, b_week, b_july]"
    by (simp add: q_four_def)
  have nd: "\<not> dedups past" by (simp add: dedups_def)
  from finalData_not_upcoming [OF ne(1), of june15 q_four
         "[Data b_week False None, Data b_sept False None, Data b_july False None]"] ev
  obtain kept where kept: "keptBookings june15 cancelled (bookings q_four) = Inr kept"
    and absent: "\<forall>b \<in> set kept. in_today june15 b \<longrightarrow> rowOf june15 q_four b
       \<notin> set [Data b_week False None, Data b_sept False None, Data b_july False None]"
    by blast
  from kept have k: "kept = [b_sept, b_today, b_week, b_july]"
    by (simp add: bs sample_kept)
  from absent k sample_class have "rowOf june15 q_four b_today
       \<notin> set [Data b_week False None, Data b_sept False None, Data b_july False None]"
    by simp
  moreover from finalData_not_upcoming [OF ne(2), of june15 q_four] nd
  have "keptBookings june15 past (bookings q_four) = Inr (bookings q_four)"
    by blast
  ultimately show ?thesis using ev kept k by simp
qed

end
